theory Spec2Isabelle
  imports Main "HOL-Library.AList" "HOL-Library.Char_ord" "HOL-Library.List_Lexorder"
begin

chapter \<open>The programs\<close>

section \<open>The outside world of the browser code\<close>

text \<open>
  \<^verbatim>\<open>sharpService.ts\<close>, \<^verbatim>\<open>photoService.ts\<close> and \<^verbatim>\<open>main.ts\<close> are TypeScript
  running in a browser. Everything they do goes through the clock (\<^verbatim>\<open>Date.now\<close>), the
  network (\<^verbatim>\<open>fetch\<close>), timers (\<^verbatim>\<open>setTimeout\<close>), the random source, object URLs and
  IndexedDB. The model threads one record, the world, through every operation. It holds
  the module-level variables, the clock, the calls made so far to the outside
  (\<open>trace\<close>), and what the outside will answer next: each answer stream is a function
  from \<open>nat\<close>, position 0 being the next answer, and reading an answer shifts the stream
  by one. The record \<open>sharp_world\<close> is the part of the world that \<^verbatim>\<open>sharpService.ts\<close>
  works on; the record \<open>world\<close> extends it by the part of \<^verbatim>\<open>photoService.ts\<close> and
  \<^verbatim>\<open>main.ts\<close>, so that the functions of \<^verbatim>\<open>sharpService.ts\<close> run on both.

  An operation of the source that can throw returns a sum (\<open>Inl\<close> the thrown value) or,
  when it has no result, an option (\<open>Some\<close> the thrown value), next to the new world.

  Time passes while the code awaits: an answer carries the milliseconds it took, and a
  timer fires after the requested delay plus a lag. Time also passes between two readings
  of the clock that no \<^verbatim>\<open>await\<close> separates: in \<^verbatim>\<open>waitForResult\<close> between
  lines 111, 115 and 117, and in the object literals of \<^verbatim>\<open>photoService.ts\<close> that read
  the clock once for the id and once for the time stamp (lines 165 and 168, lines 212 and
  216). There the clock moves by the next tick of \<open>clockTicks\<close>, which may be 0.
\<close>

text \<open>A thrown JavaScript value. \<open>Error m\<close> is \<^verbatim>\<open>new Error(m)\<close>; \<open>NetworkError\<close> is the
  rejection of \<^verbatim>\<open>fetch\<close>; \<open>SyntaxError\<close> the rejection of \<^verbatim>\<open>response.json()\<close>;
  \<open>TypeError\<close> a property read on \<^verbatim>\<open>undefined\<close>;
  \<open>StorageError\<close> the \<^verbatim>\<open>request.error\<close> an IndexedDB request rejects with;
  \<open>Thrown m\<close> is whatever a caller-supplied callback throws.\<close>

datatype js_error =
  Error string | NetworkError | SyntaxError | TypeError | StorageError | Thrown string

text \<open>The outcome of \<^verbatim>\<open>await fetch(...)\<close> followed by reading the body: the promise
  rejects, or the response has \<^verbatim>\<open>ok = false\<close> (with its text), or it is ok and the body
  does not parse, or it is ok with a parsed body.\<close>

datatype 'a response = Rejected | NotOk string | BadJson | HttpOk 'a

text \<open>The bodies of the three replies of the backend that the code reads: of
  \<^verbatim>\<open>/api/sharp/status\<close>, \<^verbatim>\<open>/api/sharp/result\<close> and \<^verbatim>\<open>/api/sharp/submit-file\<close>.\<close>

record status_json =
  status :: string
  error :: "string option"

record result_json =
  ply_url :: string
  file_name :: string
  size_bytes :: int

record submit_json =
  request_id :: string

text \<open>\<^verbatim>\<open>interface SharpResult\<close>, \<^verbatim>\<open>sharpService.ts\<close> lines 12-16.\<close>

record SharpResult =
  plyUrl :: string
  filename :: string
  sizeBytes :: int

text \<open>The value type of the \<^verbatim>\<open>activeGenerations\<close> map, lines 19-27.\<close>

record generation =
  requestId :: string
  imageUrl :: string
  startTime :: int
  photoId :: "string option"

text \<open>A \<^verbatim>\<open>File\<close> of a file input: its name, its content type and its bytes.\<close>

record File =
  fileName :: string
  fileType :: string
  fileBytes :: string

text \<open>The string literal type of \<^verbatim>\<open>Photo['splatStatus']\<close>, \<^verbatim>\<open>photoService.ts\<close> line 16.\<close>

datatype splat_status = Pending | Processing | Ready | Failed

text \<open>
  \<^verbatim>\<open>interface Photo\<close>, lines 8-17, in two steps: \<open>photoData\<close> has the fields that
  \<^verbatim>\<open>savePhotoToDB\<close> writes to IndexedDB (lines 66-74), and \<open>Photo\<close> adds the object
  URL, which is made anew at every load (lines 110-113). The fields \<^verbatim>\<open>id\<close> and
  \<^verbatim>\<open>name\<close> are \<open>photo_id\<close> and \<open>photo_name\<close> here. An optional field is an
  \<open>option\<close>.
\<close>

record photoData =
  photo_id :: string
  photo_name :: string
  blob :: File
  timestamp :: int
  albumId :: string
  splatUrl :: "string option"
  splatStatus :: "splat_status option"

record Photo = photoData +
  url :: string

text \<open>\<^verbatim>\<open>interface Album\<close>, lines 19-25; \<^verbatim>\<open>id\<close> and \<^verbatim>\<open>name\<close> are \<open>album_id\<close> and
  \<open>album_name\<close>.\<close>

record Album =
  album_id :: string
  album_name :: string
  photoCount :: int
  coverUrl :: "string option"
  createdAt :: int

text \<open>The calls the code makes to the outside, as they are recorded in \<open>trace\<close>: network
  requests, the progress callback, the console, timers, the two change callbacks of
  \<^verbatim>\<open>photoService.ts\<close> (with the snapshot they are given), and the status bar and the
  canvas of \<^verbatim>\<open>main.ts\<close>.\<close>

datatype event =
    FetchSubmitFile string
  | FetchStatus string
  | FetchResult string
  | OnProgress string
  | ConsoleLog string
  | ConsoleWarn nat
  | ConsoleError string
  | SetTimeout int
  | PhotosChanged "Photo list"
  | AlbumsChanged "Album list"
  | ShowStatus string bool
  | HideStatusAfter int
  | AddSplat string string

text \<open>
  \<open>activeGenerations\<close> is a JavaScript \<^verbatim>\<open>Map\<close>: keys are unique and keep their
  insertion order, so it is an association list; \<^verbatim>\<open>set\<close> is \<^const>\<open>AList.update\<close>
  (replace in place, or append), \<^verbatim>\<open>delete\<close> is \<^const>\<open>AList.delete\<close>,
  \<^verbatim>\<open>get\<close> is \<^const>\<open>map_of\<close>.
\<close>

record sharp_world =
  now :: int
  trace :: "event list"
  activeGenerations :: "(string \<times> generation) list"
  submitReplies :: "nat \<Rightarrow> nat \<times> submit_json response"
  statusReplies :: "nat \<Rightarrow> nat \<times> status_json response"
  resultReplies :: "nat \<Rightarrow> nat \<times> result_json response"
  timerLag :: "nat \<Rightarrow> nat"
  clockTicks :: "nat \<Rightarrow> nat"

section \<open>Rendering numbers in template literals\<close>

definition digit_char :: "nat \<Rightarrow> char" where
  "digit_char d = ''0123456789'' ! d"

fun show_nat :: "nat \<Rightarrow> string" where
  "show_nat n = (if n < 10 then [digit_char n] else show_nat (n div 10) @ [digit_char (n mod 10)])"

declare show_nat.simps [simp del]

definition show_int :: "int \<Rightarrow> string" where
  "show_int i = (if i < 0 then CHR ''-'' # show_nat (nat (- i)) else show_nat (nat i))"

section \<open>sharpService.ts\<close>

subsection \<open>Network and timer primitives\<close>

text \<open>A request takes the next reply of its stream, lets its milliseconds pass and is
  recorded in the trace.\<close>

definition fetchStatus :: "string \<Rightarrow> 'z sharp_world_scheme \<Rightarrow> status_json response \<times> 'z sharp_world_scheme" where
  "fetchStatus rid w =
     (snd (statusReplies w 0),
      w\<lparr>now := now w + int (fst (statusReplies w 0)),
        trace := trace w @ [FetchStatus rid],
        statusReplies := (\<lambda>n. statusReplies w (Suc n))\<rparr>)"

definition fetchResult :: "string \<Rightarrow> 'z sharp_world_scheme \<Rightarrow> result_json response \<times> 'z sharp_world_scheme" where
  "fetchResult rid w =
     (snd (resultReplies w 0),
      w\<lparr>now := now w + int (fst (resultReplies w 0)),
        trace := trace w @ [FetchResult rid],
        resultReplies := (\<lambda>n. resultReplies w (Suc n))\<rparr>)"

definition fetchSubmitFile :: "string \<Rightarrow> 'z sharp_world_scheme \<Rightarrow> submit_json response \<times> 'z sharp_world_scheme" where
  "fetchSubmitFile fname w =
     (snd (submitReplies w 0),
      w\<lparr>now := now w + int (fst (submitReplies w 0)),
        trace := trace w @ [FetchSubmitFile fname],
        submitReplies := (\<lambda>n. submitReplies w (Suc n))\<rparr>)"

text \<open>\<^verbatim>\<open>await sleep(ms)\<close>, line 112: a timer that fires no earlier than asked.\<close>

definition sleep :: "int \<Rightarrow> 'z sharp_world_scheme \<Rightarrow> 'z sharp_world_scheme" where
  "sleep ms w =
     w\<lparr>now := now w + ms + int (timerLag w 0),
       trace := trace w @ [SetTimeout ms],
       timerLag := (\<lambda>n. timerLag w (Suc n))\<rparr>"

text \<open>A reading of the clock that follows another one with no \<^verbatim>\<open>await\<close> between
  them: the clock has moved by the next tick.\<close>

definition tick :: "'z sharp_world_scheme \<Rightarrow> 'z sharp_world_scheme" where
  "tick w = w\<lparr>now := now w + int (clockTicks w 0), clockTicks := (\<lambda>n. clockTicks w (Suc n))\<rparr>"

subsection \<open>submitBlob, lines 61-86\<close>

text \<open>The bytes of the blob go to the backend and have no part in what the code does
  next, so the function takes the file name only.\<close>

definition submitBlob :: "string \<Rightarrow> 'z sharp_world_scheme \<Rightarrow> (js_error + string) \<times> 'z sharp_world_scheme" where
  "submitBlob fname w =
     (case fetchSubmitFile fname w of
        (Rejected, w1) \<Rightarrow> (Inl NetworkError, w1)
      | (NotOk text, w1) \<Rightarrow> (Inl (Error (''Sharp submit failed: '' @ text)), w1)
      | (BadJson, w1) \<Rightarrow> (Inl SyntaxError, w1)
      | (HttpOk json, w1) \<Rightarrow>
          (Inr (request_id json),
           w1\<lparr>activeGenerations :=
                 AList.update (request_id json)
                   \<lparr>requestId = request_id json, imageUrl = ''blob:'' @ fname,
                    startTime = now w1, photoId = None\<rparr>
                   (activeGenerations w1),
               trace := trace w1 @ [ConsoleLog (''[sharpService] Submitted blob: '' @ request_id json)]\<rparr>))"

subsection \<open>waitForResult, lines 106-167\<close>

text \<open>\<^verbatim>\<open>Math.round(d / 1000)\<close> for an integer \<open>d\<close>: the nearest integer, a half
  rounding up.\<close>

definition round_seconds :: "int \<Rightarrow> int" where
  "round_seconds d = (d + 500) div 1000"

text \<open>The optional progress callback: \<open>None\<close> when the caller passed none; applied to the
  message it returns \<open>None\<close> when it returns normally and \<open>Some e\<close> when it throws \<open>e\<close>.\<close>

type_synonym progress_callback = "(string \<Rightarrow> js_error option) option"

text \<open>The template literal of line 130.\<close>

definition progressMessage :: "int \<Rightarrow> string" where
  "progressMessage elapsed = ''Generating splat... ('' @ show_int elapsed @ ''s)''"

text \<open>Lines 128-132. The result is the exception thrown by the callback, if any.\<close>

definition reportProgress ::
  "progress_callback \<Rightarrow> status_json \<Rightarrow> int \<Rightarrow> 'z sharp_world_scheme \<Rightarrow> js_error option \<times> 'z sharp_world_scheme" where
  "reportProgress onProgress st elapsed w =
     (case onProgress of
        None \<Rightarrow> (None, w)
      | Some cb \<Rightarrow>
          if status st = ''pending'' \<or> status st = ''processing'' then
            (cb (progressMessage elapsed),
             w\<lparr>trace := trace w @ [OnProgress (progressMessage elapsed)]\<rparr>)
          else (None, w))"

text \<open>\<^verbatim>\<open>status.error || 'Generation failed'\<close>, line 155: an absent or empty message is
  falsy.\<close>

definition failureMessage :: "status_json \<Rightarrow> string" where
  "failureMessage st =
     (case error st of
        None \<Rightarrow> ''Generation failed''
      | Some m \<Rightarrow> if m = [] then ''Generation failed'' else m)"

text \<open>
  The body of the \<^verbatim>\<open>try\<close> block, lines 120-157. \<open>Inl e\<close>: the block throws \<open>e\<close>;
  \<open>Inr (Some r)\<close>: it executes \<^verbatim>\<open>return r\<close>; \<open>Inr None\<close>: it runs to its end.
\<close>

definition tryBody ::
  "string \<Rightarrow> progress_callback \<Rightarrow> int \<Rightarrow> 'z sharp_world_scheme
     \<Rightarrow> (js_error + SharpResult option) \<times> 'z sharp_world_scheme" where
  "tryBody rid onProgress elapsed w =
     (case fetchStatus rid w of
        (Rejected, w1) \<Rightarrow> (Inl NetworkError, w1)
      | (NotOk text, w1) \<Rightarrow> (Inr None, w1)
      | (BadJson, w1) \<Rightarrow> (Inl SyntaxError, w1)
      | (HttpOk st, w1) \<Rightarrow>
          (case reportProgress onProgress st elapsed w1 of
             (Some e, w2) \<Rightarrow> (Inl e, w2)
           | (None, w2) \<Rightarrow>
               if status st = ''completed'' then
                 (case fetchResult rid w2 of
                    (Rejected, w3) \<Rightarrow> (Inl NetworkError, w3)
                  | (NotOk text, w3) \<Rightarrow> (Inl (Error ''Failed to get result''), w3)
                  | (BadJson, w3) \<Rightarrow> (Inl SyntaxError, w3)
                  | (HttpOk res, w3) \<Rightarrow>
                      (Inr (Some \<lparr>plyUrl = ply_url res, filename = file_name res,
                                  sizeBytes = size_bytes res\<rparr>),
                       w3\<lparr>activeGenerations := AList.delete rid (activeGenerations w3)\<rparr>))
               else if status st = ''failed'' then
                 (Inl (Error (failureMessage st)),
                  w2\<lparr>activeGenerations := AList.delete rid (activeGenerations w2)\<rparr>)
               else (Inr None, w2)))"

text \<open>
  One pass of the loop body up to the backoff, lines 119-160: the \<^verbatim>\<open>try\<close> block
  with its \<^verbatim>\<open>catch (err)\<close>, which logs a warning and falls through to the backoff
  whatever was thrown. \<open>Some r\<close>: the function returns \<open>r\<close>; \<open>None\<close>: the loop goes on.
\<close>

definition pollAttempt ::
  "string \<Rightarrow> progress_callback \<Rightarrow> int \<Rightarrow> nat \<Rightarrow> 'z sharp_world_scheme
     \<Rightarrow> SharpResult option \<times> 'z sharp_world_scheme" where
  "pollAttempt rid onProgress elapsed attempt w =
     (case tryBody rid onProgress elapsed w of
        (Inr ret, w1) \<Rightarrow> (ret, w1)
      | (Inl err, w1) \<Rightarrow> (None, w1\<lparr>trace := trace w1 @ [ConsoleWarn attempt]\<rparr>))"

text \<open>
  The \<^verbatim>\<open>while\<close> loop, lines 115-164, and the \<^verbatim>\<open>throw\<close> after it, line 166.
  \<open>attempt\<close> is the value of the variable on entry to the loop test. The test of line 115
  reads the clock, and line 117 reads it again, one tick later, for \<^verbatim>\<open>elapsed\<close>.
\<close>

function waitLoop ::
  "string \<Rightarrow> int \<Rightarrow> progress_callback \<Rightarrow> int \<Rightarrow> nat \<Rightarrow> 'z sharp_world_scheme
     \<Rightarrow> (js_error + SharpResult) \<times> 'z sharp_world_scheme" where
  "waitLoop rid timeoutMs onProgress start attempt w =
     (if now w - start < timeoutMs then
        (case pollAttempt rid onProgress (round_seconds (now (tick w) - start)) (attempt + 1) (tick w) of
           (Some r, w1) \<Rightarrow> (Inr r, w1)
         | (None, w1) \<Rightarrow>
             waitLoop rid timeoutMs onProgress start (attempt + 1)
               (sleep (min 5000 (1000 + int (attempt + 1) * 200)) w1))
      else (Inl (Error ''sharp_timeout''), w))"
  by pat_completeness auto
termination
proof (relation "measure (\<lambda>(rid, timeoutMs, onProgress, start, attempt, w). nat (start + timeoutMs - now w))")
  show "wf (measure (\<lambda>(rid :: string, timeoutMs, onProgress :: progress_callback, start,
                      attempt :: nat, w :: 'z sharp_world_scheme). nat (start + timeoutMs - now w)))"
    by simp
next
  fix rid :: string and timeoutMs start :: int and onProgress :: progress_callback
    and attempt :: nat and w w1 :: "'z sharp_world_scheme" and x1 :: "SharpResult option"
  assume live: "now w - start < timeoutMs"
    and poll: "(x1, w1) = pollAttempt rid onProgress (round_seconds (now (tick w) - start)) (attempt + 1) (tick w)"
  have "now w \<le> now (tick w)"
    by (simp add: tick_def)
  moreover
  have "now (tick w) \<le> now (snd (tryBody rid onProgress (round_seconds (now (tick w) - start)) (tick w)))"
    by (simp add: tryBody_def fetchStatus_def fetchResult_def reportProgress_def
        split: response.splits option.splits prod.splits)
  with poll have "now (tick w) \<le> now w1"
    by (cases "tryBody rid onProgress (round_seconds (now (tick w) - start)) (tick w)")
      (auto simp: pollAttempt_def split: sum.splits)
  ultimately have "now w \<le> now w1"
    by simp
  with live
  show "((rid, timeoutMs, onProgress, start, attempt + 1,
          sleep (min 5000 (1000 + int (attempt + 1) * 200)) w1),
         (rid, timeoutMs, onProgress, start, attempt, w))
        \<in> measure (\<lambda>(rid, timeoutMs, onProgress, start, attempt, w). nat (start + timeoutMs - now w))"
    by (simp add: sleep_def)
qed

declare waitLoop.simps [simp del]

text \<open>\<^verbatim>\<open>timeoutMs = 3 * 60 * 1000\<close> is the default of the second parameter. Line 111
  reads the clock for \<^verbatim>\<open>start\<close>; the first test of line 115 reads it again, one tick
  later.\<close>

definition waitForResult ::
  "string \<Rightarrow> int option \<Rightarrow> progress_callback \<Rightarrow> 'z sharp_world_scheme
     \<Rightarrow> (js_error + SharpResult) \<times> 'z sharp_world_scheme" where
  "waitForResult rid timeoutMs onProgress w =
     waitLoop rid (case timeoutMs of None \<Rightarrow> 3 * 60 * 1000 | Some t \<Rightarrow> t) onProgress (now w) 0 (tick w)"

subsection \<open>The tracker, lines 91-101 and 195-211\<close>

definition setPhotoId :: "string \<Rightarrow> string \<Rightarrow> 'z sharp_world_scheme \<Rightarrow> 'z sharp_world_scheme" where
  "setPhotoId rid pid w =
     (case map_of (activeGenerations w) rid of
        None \<Rightarrow> w
      | Some gen \<Rightarrow>
          w\<lparr>activeGenerations := AList.update rid (gen\<lparr>photoId := Some pid\<rparr>) (activeGenerations w)\<rparr>)"

definition getPhotoId :: "string \<Rightarrow> 'z sharp_world_scheme \<Rightarrow> string option" where
  "getPhotoId rid w = (case map_of (activeGenerations w) rid of None \<Rightarrow> None | Some gen \<Rightarrow> photoId gen)"

definition getActiveGenerations :: "'z sharp_world_scheme \<Rightarrow> string list" where
  "getActiveGenerations w = map fst (activeGenerations w)"


subsection \<open>generateSplatFromBlob, lines 183-190\<close>

definition generateSplatFromBlob ::
  "File \<Rightarrow> string \<Rightarrow> progress_callback \<Rightarrow> 'z sharp_world_scheme
     \<Rightarrow> (js_error + SharpResult) \<times> 'z sharp_world_scheme" where
  "generateSplatFromBlob b fname onProgress w =
     (case submitBlob fname w of
        (Inl e, w1) \<Rightarrow> (Inl e, w1)
      | (Inr rid, w1) \<Rightarrow> waitForResult rid (Some (3 * 60 * 1000)) onProgress w1)"

section \<open>photoService.ts\<close>

subsection \<open>Module state, the object heap and IndexedDB\<close>

text \<open>
  \<^verbatim>\<open>Photo\<close> objects are shared: the array \<^verbatim>\<open>photos\<close>, the array returned by
  \<^verbatim>\<open>addPhotosFromFiles\<close> and the loop of \<^verbatim>\<open>generateSplatsForPhotos\<close> hold the same
  objects, and \<^verbatim>\<open>updatePhotoSplatStatus\<close> assigns to their fields. So \<open>heap\<close> holds every
  \<^verbatim>\<open>Photo\<close> object created so far, a reference is an index into it, and \<open>photos\<close> is
  the module's array of references (lines 28-32). \<open>albums\<close> holds the album objects
  themselves, which are reached through this array only. The two callbacks are modelled
  by whether one is registered; a registered one is called with a snapshot.

  \<open>photosStore\<close> and \<open>albumsStore\<close> are the two object stores of IndexedDB (lines
  35-58), each a list of key and record kept in key order, the order in which
  \<^verbatim>\<open>getAll\<close> returns the records. \<open>dbReplies\<close> answers each request with the
  milliseconds it takes and whether it fails. \<open>randomSuffixes\<close> answers each
  \<^verbatim>\<open>Math.random().toString(36).slice(2, 9)\<close>, \<open>objectUrls\<close> each
  \<^verbatim>\<open>URL.createObjectURL\<close>. The last three fields belong to \<^verbatim>\<open>main.ts\<close>.
\<close>

record world = sharp_world +
  heap :: "Photo list"
  photos :: "nat list"
  albums :: "Album list"
  currentAlbumId :: "string option"
  onPhotosChangedCallback :: bool
  onAlbumsChangedCallback :: bool
  photosStore :: "(string \<times> photoData) list"
  albumsStore :: "(string \<times> Album) list"
  dbReplies :: "nat \<Rightarrow> nat \<times> bool"
  randomSuffixes :: "nat \<Rightarrow> string"
  objectUrls :: "nat \<Rightarrow> string"
  splatHistory :: "(string \<times> splat_status option \<times> splat_status option) list"
  isGeneratingSplats :: bool
  readySplatsCount :: nat
  addSplatThrows :: "nat \<Rightarrow> bool"

text \<open>An optional string in a condition: absent and empty are falsy.\<close>

definition truthy :: "string option \<Rightarrow> bool" where
  "truthy s = (case s of None \<Rightarrow> False | Some t \<Rightarrow> t \<noteq> [])"

text \<open>\<^verbatim>\<open>store.put\<close>: the record replaces the one with its key, or is inserted at the
  place of its key.\<close>

fun dbPut :: "string \<Rightarrow> 'v \<Rightarrow> (string \<times> 'v) list \<Rightarrow> (string \<times> 'v) list" where
  "dbPut k v [] = [(k, v)]"
| "dbPut k v ((k', v') # rest) =
     (if k < k' then (k, v) # (k', v') # rest
      else if k = k' then (k, v) # rest
      else (k', v') # dbPut k v rest)"

text \<open>Opening the database and running one request (lines 40-58 and the promise of each
  function below): \<open>True\<close> when it fails.\<close>

definition dbRequest :: "world \<Rightarrow> bool \<times> world" where
  "dbRequest w =
     (snd (dbReplies w 0),
      w\<lparr>now := now w + int (fst (dbReplies w 0)), dbReplies := (\<lambda>n. dbReplies w (Suc n))\<rparr>)"

text \<open>The object \<^verbatim>\<open>photoData\<close> of lines 66-74: the photo without its URL.\<close>

definition photoDataOf :: "Photo \<Rightarrow> photoData" where
  "photoDataOf photo =
     \<lparr>photo_id = photo_id photo, photo_name = photo_name photo, blob = blob photo,
      timestamp = timestamp photo, albumId = albumId photo,
      splatUrl = splatUrl photo, splatStatus = splatStatus photo\<rparr>"

text \<open>\<^verbatim>\<open>savePhotoToDB\<close>, lines 60-80, and \<^verbatim>\<open>saveAlbumToDB\<close>, lines 82-91: \<open>None\<close> when
  the promise resolves, \<open>Some e\<close> when it rejects with \<open>e\<close>.\<close>

definition savePhotoToDB :: "Photo \<Rightarrow> world \<Rightarrow> js_error option \<times> world" where
  "savePhotoToDB photo w =
     (case dbRequest w of
        (True, w1) \<Rightarrow> (Some StorageError, w1)
      | (False, w1) \<Rightarrow>
          (None, w1\<lparr>photosStore := dbPut (photo_id photo) (photoDataOf photo) (photosStore w1)\<rparr>))"

definition saveAlbumToDB :: "Album \<Rightarrow> world \<Rightarrow> js_error option \<times> world" where
  "saveAlbumToDB album w =
     (case dbRequest w of
        (True, w1) \<Rightarrow> (Some StorageError, w1)
      | (False, w1) \<Rightarrow> (None, w1\<lparr>albumsStore := dbPut (album_id album) album (albumsStore w1)\<rparr>))"

text \<open>Lines 110-113: a new object with a new object URL for each record, in order.\<close>

fun makePhotos :: "photoData list \<Rightarrow> world \<Rightarrow> nat list \<times> world" where
  "makePhotos [] w = ([], w)"
| "makePhotos (d # ds) w =
     (case makePhotos ds
             (w\<lparr>objectUrls := (\<lambda>n. objectUrls w (Suc n)),
                heap := heap w @
                  [\<lparr>photo_id = photo_id d, photo_name = photo_name d, blob = blob d,
                    timestamp = timestamp d, albumId = albumId d, splatUrl = splatUrl d,
                    splatStatus = splatStatus d, url = objectUrls w 0\<rparr>]\<rparr>) of
        (rs, w') \<Rightarrow> (length (heap w) # rs, w'))"

text \<open>\<^verbatim>\<open>loadPhotosFromDB\<close>, lines 93-117: the records of the album through the index
  when the argument is truthy, all records otherwise. \<^verbatim>\<open>loadAlbumsFromDB\<close>, lines
  119-129.\<close>

definition loadPhotosFromDB :: "string option \<Rightarrow> world \<Rightarrow> (js_error + nat list) \<times> world" where
  "loadPhotosFromDB aid w =
     (case dbRequest w of
        (True, w1) \<Rightarrow> (Inl StorageError, w1)
      | (False, w1) \<Rightarrow>
          (case makePhotos
                  (if truthy aid then filter (\<lambda>d. Some (albumId d) = aid) (map snd (photosStore w1))
                   else map snd (photosStore w1))
                  w1 of
             (rs, w2) \<Rightarrow> (Inr rs, w2)))"

definition loadAlbumsFromDB :: "world \<Rightarrow> (js_error + Album list) \<times> world" where
  "loadAlbumsFromDB w =
     (case dbRequest w of
        (True, w1) \<Rightarrow> (Inl StorageError, w1)
      | (False, w1) \<Rightarrow> (Inr (map snd (albumsStore w1)), w1))"

text \<open>The calls of the two callbacks, as at lines 236-238 and 174-176.\<close>

definition notifyPhotosChanged :: "world \<Rightarrow> world" where
  "notifyPhotosChanged w =
     (if onPhotosChangedCallback w
      then w\<lparr>trace := trace w @ [PhotosChanged (map ((!) (heap w)) (photos w))]\<rparr>
      else w)"

definition notifyAlbumsChanged :: "world \<Rightarrow> world" where
  "notifyAlbumsChanged w =
     (if onAlbumsChangedCallback w then w\<lparr>trace := trace w @ [AlbumsChanged (albums w)]\<rparr> else w)"

subsection \<open>initPhotoService, lines 134-158\<close>

text \<open>Lines 140-149: the default album is pushed to the array and then saved.\<close>

definition ensureDefaultAlbum :: "world \<Rightarrow> js_error option \<times> world" where
  "ensureDefaultAlbum w =
     (if albums w = [] then
        saveAlbumToDB
          \<lparr>album_id = ''default'', album_name = ''All Memories'', photoCount = 0,
           coverUrl = None, createdAt = now w\<rparr>
          (w\<lparr>albums :=
               [\<lparr>album_id = ''default'', album_name = ''All Memories'', photoCount = 0,
                 coverUrl = None, createdAt = now w\<rparr>]\<rparr>)
      else (None, w))"

text \<open>The array \<^verbatim>\<open>albums\<close> is not empty at line 152; the model gives the empty case the
  error the read of \<^verbatim>\<open>albums[0].id\<close> would throw. The result is the two arrays.\<close>

definition initPhotoService :: "world \<Rightarrow> (js_error + nat list \<times> Album list) \<times> world" where
  "initPhotoService w =
     (case loadAlbumsFromDB w of
        (Inl e, w1) \<Rightarrow> (Inl e, w1)
      | (Inr storedAlbums, w1) \<Rightarrow>
          (case ensureDefaultAlbum (w1\<lparr>albums := storedAlbums\<rparr>) of
             (Some e, w2) \<Rightarrow> (Inl e, w2)
           | (None, w2) \<Rightarrow>
               (case albums w2 of
                  [] \<Rightarrow> (Inl TypeError, w2)
                | first # others \<Rightarrow>
                    (case loadPhotosFromDB (Some (album_id first))
                            (w2\<lparr>currentAlbumId := Some (album_id first)\<rparr>) of
                       (Inl e, w3) \<Rightarrow> (Inl e, w3)
                     | (Inr storedPhotos, w3) \<Rightarrow>
                         (Inr (storedPhotos, albums w3), w3\<lparr>photos := storedPhotos\<rparr>)))))"

subsection \<open>createAlbum and switchAlbum, lines 163-196\<close>

text \<open>The object literal of lines 164-169: the id is made from the first reading of the
  clock, \<^verbatim>\<open>createdAt\<close> is the second reading, one tick later.\<close>

definition newAlbum :: "string \<Rightarrow> world \<Rightarrow> Album" where
  "newAlbum aname w =
     \<lparr>album_id = ''album-'' @ show_int (now w) @ ''-'' @ randomSuffixes w 0,
      album_name = aname, photoCount = 0, coverUrl = None, createdAt = now (tick w)\<rparr>"

definition createAlbum :: "string \<Rightarrow> world \<Rightarrow> (js_error + Album) \<times> world" where
  "createAlbum aname w =
     (case saveAlbumToDB (newAlbum aname w)
             ((tick w)\<lparr>randomSuffixes := (\<lambda>n. randomSuffixes w (Suc n)),
                       albums := albums w @ [newAlbum aname w]\<rparr>) of
        (Some e, w1) \<Rightarrow> (Inl e, w1)
      | (None, w1) \<Rightarrow> (Inr (newAlbum aname w), notifyAlbumsChanged w1))"

definition switchAlbum :: "string \<Rightarrow> world \<Rightarrow> (js_error + nat list) \<times> world" where
  "switchAlbum aid w =
     (case loadPhotosFromDB (Some aid) (w\<lparr>currentAlbumId := Some aid\<rparr>) of
        (Inl e, w1) \<Rightarrow> (Inl e, w1)
      | (Inr storedPhotos, w1) \<Rightarrow> (Inr storedPhotos, notifyPhotosChanged (w1\<lparr>photos := storedPhotos\<rparr>)))"

subsection \<open>addPhotosFromFiles, lines 201-241\<close>

text \<open>\<^verbatim>\<open>a || b\<close> for an optional string \<open>a\<close>: absent and empty are falsy.\<close>

definition orElse :: "string option \<Rightarrow> string \<Rightarrow> string" where
  "orElse s d = (case s of None \<Rightarrow> d | Some t \<Rightarrow> if t = [] then d else t)"

text \<open>\<^verbatim>\<open>file.type.startsWith('image/')\<close>, line 209.\<close>

definition isImage :: "File \<Rightarrow> bool" where
  "isImage f = (take 6 (fileType f) = ''image/'')"

text \<open>The object literal of lines 211-219: the id is made from the reading of the clock
  at line 212, the time stamp is the reading at line 216, one tick later.\<close>

definition newPhoto :: "File \<Rightarrow> string \<Rightarrow> world \<Rightarrow> Photo" where
  "newPhoto f target w =
     \<lparr>photo_id = ''photo-'' @ show_int (now w) @ ''-'' @ randomSuffixes w 0,
      photo_name = fileName f, blob = f, timestamp = now (tick w), albumId = target,
      splatUrl = None, splatStatus = Some Pending, url = objectUrls w 0\<rparr>"

text \<open>The \<^verbatim>\<open>for\<close> loop of lines 208-224; \<open>newPhotos\<close> is the array built so far.\<close>

fun addLoop :: "File list \<Rightarrow> string \<Rightarrow> nat list \<Rightarrow> world \<Rightarrow> (js_error + nat list) \<times> world" where
  "addLoop [] target newPhotos w = (Inr newPhotos, w)"
| "addLoop (f # fs) target newPhotos w =
     (if \<not> isImage f then addLoop fs target newPhotos w
      else
        (case savePhotoToDB (newPhoto f target w)
                ((tick w)\<lparr>randomSuffixes := (\<lambda>n. randomSuffixes w (Suc n)),
                          objectUrls := (\<lambda>n. objectUrls w (Suc n)),
                          heap := heap w @ [newPhoto f target w],
                          photos := photos w @ [length (heap w)]\<rparr>) of
           (Some e, w1) \<Rightarrow> (Inl e, w1)
         | (None, w1) \<Rightarrow> addLoop fs target (newPhotos @ [length (heap w)]) w1))"

text \<open>The album found by \<^verbatim>\<open>albums.find\<close> is an object of the array; assigning to its
  fields changes the first album of the array with that id.\<close>

fun updateFirst :: "('a \<Rightarrow> bool) \<Rightarrow> ('a \<Rightarrow> 'a) \<Rightarrow> 'a list \<Rightarrow> 'a list" where
  "updateFirst P g [] = []"
| "updateFirst P g (x # xs) = (if P x then g x # xs else x # updateFirst P g xs)"

text \<open>Lines 229-232, applied to the album found.\<close>

definition countNewPhotos :: "nat list \<Rightarrow> world \<Rightarrow> Album \<Rightarrow> Album" where
  "countNewPhotos newPhotos w album =
     album\<lparr>photoCount := photoCount album + int (length newPhotos),
           coverUrl :=
             (case newPhotos of
                [] \<Rightarrow> coverUrl album
              | r # rs \<Rightarrow> if truthy (coverUrl album) then coverUrl album else Some (url (heap w ! r)))\<rparr>"

text \<open>Lines 227-234.\<close>

definition updateAlbumCount :: "string \<Rightarrow> nat list \<Rightarrow> world \<Rightarrow> js_error option \<times> world" where
  "updateAlbumCount target newPhotos w =
     (case find (\<lambda>a. album_id a = target) (albums w) of
        None \<Rightarrow> (None, w)
      | Some album \<Rightarrow>
          saveAlbumToDB (countNewPhotos newPhotos w album)
            (w\<lparr>albums := updateFirst (\<lambda>a. album_id a = target) (countNewPhotos newPhotos w) (albums w)\<rparr>))"

text \<open>The result is the array \<^verbatim>\<open>newPhotos\<close>: references to the new objects.\<close>

definition addPhotosFromFiles :: "File list \<Rightarrow> string option \<Rightarrow> world \<Rightarrow> (js_error + nat list) \<times> world" where
  "addPhotosFromFiles files aid w =
     (case addLoop files (orElse aid (orElse (currentAlbumId w) ''default'')) [] w of
        (Inl e, w1) \<Rightarrow> (Inl e, w1)
      | (Inr newPhotos, w1) \<Rightarrow>
          (case updateAlbumCount (orElse aid (orElse (currentAlbumId w) ''default'')) newPhotos w1 of
             (Some e, w2) \<Rightarrow> (Inl e, w2)
           | (None, w2) \<Rightarrow> (Inr newPhotos, notifyPhotosChanged w2)))"

subsection \<open>Reading the store, lines 246-269 and 297-299\<close>

text \<open>\<^verbatim>\<open>getPhotos\<close> returns a copy of the array, which holds the same objects: what the
  caller sees in them is their present state.\<close>

definition getPhotos :: "world \<Rightarrow> Photo list" where
  "getPhotos w = map ((!) (heap w)) (photos w)"

definition getPhotoUrls :: "world \<Rightarrow> string list" where
  "getPhotoUrls w = map (\<lambda>r. url (heap w ! r)) (photos w)"

definition getAlbums :: "world \<Rightarrow> Album list" where
  "getAlbums w = albums w"

definition getCurrentAlbumId :: "world \<Rightarrow> string option" where
  "getCurrentAlbumId w = currentAlbumId w"

text \<open>\<^verbatim>\<open>photos.find(p => p.id === photoId)\<close>: the reference of the first photo of the
  array with that id.\<close>

definition findPhoto :: "string \<Rightarrow> world \<Rightarrow> nat option" where
  "findPhoto pid w = find (\<lambda>r. photo_id (heap w ! r) = pid) (photos w)"

definition getPhotoById :: "string \<Rightarrow> world \<Rightarrow> Photo option" where
  "getPhotoById pid w = map_option ((!) (heap w)) (findPhoto pid w)"

subsection \<open>updatePhotoSplatStatus, lines 274-292\<close>

text \<open>Lines 282-285 applied to the photo found: the status is assigned as given, the URL
  only when the argument is truthy.\<close>

definition setSplat :: "splat_status option \<Rightarrow> string option \<Rightarrow> Photo \<Rightarrow> Photo" where
  "setSplat st u photo =
     (if truthy u then photo\<lparr>splatStatus := st, splatUrl := u\<rparr> else photo\<lparr>splatStatus := st\<rparr>)"

text \<open>
  \<open>splatHistory\<close> is a history variable with no counterpart in the source: every
  execution of the assignment of line 282 appends the photo id, the status the object had
  and the status it gets.
\<close>

definition updatePhotoSplatStatus ::
  "string \<Rightarrow> splat_status option \<Rightarrow> string option \<Rightarrow> world \<Rightarrow> js_error option \<times> world" where
  "updatePhotoSplatStatus pid st u w =
     (case findPhoto pid w of
        None \<Rightarrow> (None, w)
      | Some r \<Rightarrow>
          (case savePhotoToDB (setSplat st u (heap w ! r))
                  (w\<lparr>heap := (heap w)[r := setSplat st u (heap w ! r)],
                     splatHistory := splatHistory w @ [(pid, splatStatus (heap w ! r), st)]\<rparr>) of
             (Some e, w1) \<Rightarrow> (Some e, w1)
           | (None, w1) \<Rightarrow> (None, notifyPhotosChanged w1)))"

text \<open>\<^verbatim>\<open>onPhotosChanged\<close> and \<^verbatim>\<open>onAlbumsChanged\<close>, lines 304-313.\<close>

definition onPhotosChanged :: "world \<Rightarrow> world" where
  "onPhotosChanged w = w\<lparr>onPhotosChangedCallback := True\<rparr>"

definition onAlbumsChanged :: "world \<Rightarrow> world" where
  "onAlbumsChanged w = w\<lparr>onAlbumsChangedCallback := True\<rparr>"

subsection \<open>Well-formed stores\<close>

text \<open>Every reference of the array is an object of the heap. The operations keep this;
  it holds of the empty store.\<close>

definition validRefs :: "world \<Rightarrow> bool" where
  "validRefs w = (\<forall>r \<in> set (photos w). r < length (heap w))"

text \<open>No two photos of the array have the same id.\<close>

definition distinctIds :: "world \<Rightarrow> bool" where
  "distinctIds w = distinct (map (\<lambda>r. photo_id (heap w ! r)) (photos w))"

section \<open>main.ts\<close>

subsection \<open>generateSplatsForPhotos, lines 231-265\<close>

text \<open>\<^verbatim>\<open>showStatus\<close>, lines 210-222, writes to the status bar.\<close>

definition showStatus :: "string \<Rightarrow> bool \<Rightarrow> world \<Rightarrow> world" where
  "showStatus text showSpinner w = w\<lparr>trace := trace w @ [ShowStatus text showSpinner]\<rparr>"

text \<open>\<^verbatim>\<open>setTimeout(() => this.hideStatus(), 3000)\<close>, line 264; it is not awaited.\<close>

definition hideStatusLater :: "world \<Rightarrow> world" where
  "hideStatusLater w = w\<lparr>trace := trace w @ [HideStatusAfter 3000]\<rparr>"

text \<open>
  \<^verbatim>\<open>this.canvas.addSplat\<close>, line 252. The class \<^verbatim>\<open>Canvas\<close> is not among the source
  files, so whether the call throws is an answer of the outside.
\<close>

definition canvasAddSplat :: "string \<Rightarrow> string \<Rightarrow> world \<Rightarrow> js_error option \<times> world" where
  "canvasAddSplat pid u w =
     (if addSplatThrows w 0 then Some (Thrown ''canvas.addSplat'') else None,
      w\<lparr>trace := trace w @ [AddSplat pid u], addSplatThrows := (\<lambda>n. addSplatThrows w (Suc n))\<rparr>)"

text \<open>The progress callback of line 245 shows the message in the status bar and does not
  throw; its call is the \<open>OnProgress\<close> event of the trace.\<close>

definition statusBarCallback :: progress_callback where
  "statusBarCallback = Some (\<lambda>progress. None)"

text \<open>Lines 248-254: what follows a successful generation inside the \<^verbatim>\<open>try\<close>.\<close>

definition publishSplat :: "nat \<Rightarrow> SharpResult \<Rightarrow> world \<Rightarrow> js_error option \<times> world" where
  "publishSplat r result w =
     (case updatePhotoSplatStatus (photo_id (heap w ! r)) (Some Ready) (Some (plyUrl result)) w of
        (Some e, w1) \<Rightarrow> (Some e, w1)
      | (None, w1) \<Rightarrow>
          (case canvasAddSplat (photo_id (heap w1 ! r)) (plyUrl result)
                  (w1\<lparr>trace := trace w1 @ [ConsoleLog (''[App] Splat ready: '' @ plyUrl result)]\<rparr>) of
             (Some e, w2) \<Rightarrow> (Some e, w2)
           | (None, w2) \<Rightarrow>
               (None,
                w2\<lparr>readySplatsCount := readySplatsCount w2 + 1,
                   trace := trace w2 @
                     [ConsoleLog (''[App] '' @ show_nat (readySplatsCount w2 + 1) @ '' splats ready'')]\<rparr>)))"

text \<open>The \<^verbatim>\<open>try\<close> block, lines 239-254, for the photo object \<open>r\<close>. \<open>Some e\<close>: it throws.\<close>

definition tryConvert :: "nat \<Rightarrow> world \<Rightarrow> js_error option \<times> world" where
  "tryConvert r w =
     (case updatePhotoSplatStatus (photo_id (heap w ! r)) (Some Processing) None w of
        (Some e, w1) \<Rightarrow> (Some e, w1)
      | (None, w1) \<Rightarrow>
          (case generateSplatFromBlob (blob (heap w1 ! r)) (photo_name (heap w1 ! r)) statusBarCallback
                  (showStatus (''Converting '' @ [CHR 0x22] @ photo_name (heap w1 ! r) @ [CHR 0x22] @ '' to 3D...'')
                     True w1) of
             (Inl e, w2) \<Rightarrow> (Some e, w2)
           | (Inr result, w2) \<Rightarrow> publishSplat r result w2))"

text \<open>The loop body, lines 236-258. \<open>Some e\<close>: the \<^verbatim>\<open>catch\<close> block itself throws, which
  ends \<^verbatim>\<open>generateSplatsForPhotos\<close>.\<close>

definition convertPhoto :: "nat \<Rightarrow> world \<Rightarrow> js_error option \<times> world" where
  "convertPhoto r w =
     (if splatStatus (heap w ! r) \<noteq> Some Pending then (None, w)
      else
        (case tryConvert r w of
           (None, w1) \<Rightarrow> (None, w1)
         | (Some err, w1) \<Rightarrow>
             updatePhotoSplatStatus (photo_id (heap w1 ! r)) (Some Failed) None
               (w1\<lparr>trace := trace w1 @
                     [ConsoleError (''[App] Splat generation failed for '' @ photo_name (heap w1 ! r) @ '':'')]\<rparr>)))"

text \<open>The \<^verbatim>\<open>for\<close> loop, lines 235-259, over the photo objects it was given.\<close>

fun convertAll :: "nat list \<Rightarrow> world \<Rightarrow> js_error option \<times> world" where
  "convertAll [] w = (None, w)"
| "convertAll (r # rs) w =
     (case convertPhoto r w of
        (Some e, w1) \<Rightarrow> (Some e, w1)
      | (None, w1) \<Rightarrow> convertAll rs w1)"

definition generateSplatsForPhotos :: "nat list \<Rightarrow> world \<Rightarrow> js_error option \<times> world" where
  "generateSplatsForPhotos rs w =
     (if isGeneratingSplats w then (None, w)
      else
        (case convertAll rs (w\<lparr>isGeneratingSplats := True\<rparr>) of
           (Some e, w1) \<Rightarrow> (Some e, w1)
         | (None, w1) \<Rightarrow>
             (None,
              hideStatusLater
                (showStatus ''All memories converted to 3D!'' False (w1\<lparr>isGeneratingSplats := False\<rparr>)))))"

section \<open>Reading the trace and the replies\<close>


fun isFetchStatus :: "event \<Rightarrow> bool" where
  "isFetchStatus (FetchStatus rid) = True"
| "isFetchStatus _ = False"

fun isFetchResult :: "event \<Rightarrow> bool" where
  "isFetchResult (FetchResult rid) = True"
| "isFetchResult _ = False"

fun isSetTimeout :: "event \<Rightarrow> bool" where
  "isSetTimeout (SetTimeout ms) = True"
| "isSetTimeout _ = False"

text \<open>How many status queries, and how many result fetches, a trace holds.\<close>

definition statusQueries :: "event list \<Rightarrow> nat" where
  "statusQueries tr = length (filter isFetchStatus tr)"

definition resultFetches :: "event list \<Rightarrow> nat" where
  "resultFetches tr = length (filter isFetchResult tr)"

text \<open>The status queries and the timers of a trace, in order.\<close>

definition pollSchedule :: "event list \<Rightarrow> event list" where
  "pollSchedule tr = filter (\<lambda>e. isFetchStatus e \<or> isSetTimeout e) tr"

subsection \<open>What a call did to the store\<close>

text \<open>A photo made by \<^verbatim>\<open>addPhotosFromFiles\<close> from the file \<open>f\<close> for the album
  \<open>target\<close> (lines 211-219): the file's name and content, pending, no splat URL.\<close>

definition createdFrom :: "string \<Rightarrow> File \<Rightarrow> Photo \<Rightarrow> bool" where
  "createdFrom target f p =
     (photo_name p = fileName f \<and> blob p = f \<and> albumId p = target
      \<and> splatStatus p = Some Pending \<and> splatUrl p = None)"

text \<open>
  The reading of the clock at line 212 for the \<open>i\<close>-th file that a call of
  \<^verbatim>\<open>addPhotosFromFiles\<close> starting in \<open>w\<close> accepts, counted from 0, when no request
  fails: between two such readings pass the tick up to line 216 and the request of
  \<^verbatim>\<open>savePhotoToDB\<close>. \<open>newIds w n\<close> are the ids such a call gives to the first \<open>n\<close>
  files it accepts, and \<open>newTimestamps w n\<close> their time stamps.
\<close>

fun idClock :: "world \<Rightarrow> nat \<Rightarrow> int" where
  "idClock w 0 = now w"
| "idClock w (Suc i) = idClock w i + int (clockTicks w i) + int (fst (dbReplies w i))"

definition newIds :: "world \<Rightarrow> nat \<Rightarrow> string list" where
  "newIds w n =
     map (\<lambda>i. ''photo-'' @ show_int (idClock w i) @ ''-'' @ randomSuffixes w i) [0 ..< n]"

definition newTimestamps :: "world \<Rightarrow> nat \<Rightarrow> int list" where
  "newTimestamps w n = map (\<lambda>i. idClock w i + int (clockTicks w i)) [0 ..< n]"

text \<open>The ids the store knows: of the photos in memory and of the records in IndexedDB.\<close>

definition storedIds :: "world \<Rightarrow> string set" where
  "storedIds w = photo_id ` set (getPhotos w) \<union> fst ` set (photosStore w)"

definition endsWith :: "string \<Rightarrow> string \<Rightarrow> bool" where
  "endsWith e s = (length s \<le> length e \<and> drop (length e - length s) e = s)"

text \<open>
  The next \<open>n\<close> random suffixes are fresh: they differ from each other, they hold no
  hyphen (\<^verbatim>\<open>toString(36)\<close> gives digits and lower-case letters), and no id the store
  knows ends with a hyphen and one of them.
\<close>

definition freshSuffixes :: "world \<Rightarrow> nat \<Rightarrow> bool" where
  "freshSuffixes w n =
     (distinct (map (randomSuffixes w) [0 ..< n])
      \<and> (\<forall>i < n. CHR ''-'' \<notin> set (randomSuffixes w i)
                   \<and> (\<forall>e \<in> storedIds w. \<not> endsWith e (''-'' @ randomSuffixes w i))))"

text \<open>The photos store after the photos \<open>ps\<close> were put into it one after the other: a
  later photo replaces an earlier record with the same id.\<close>

definition persist :: "Photo list \<Rightarrow> (string \<rightharpoonup> photoData) \<Rightarrow> (string \<rightharpoonup> photoData)" where
  "persist ps m = fold (\<lambda>p m. m(photo_id p \<mapsto> photoDataOf p)) ps m"

text \<open>The changes of splatStatus that \<^verbatim>\<open>generateSplatsForPhotos\<close> makes: the three of
  the data model, and from ready to failed, which happens when a step after the photo was
  marked ready throws (lines 248-257).\<close>

fun advance :: "splat_status option \<Rightarrow> splat_status option \<Rightarrow> bool" where
  "advance (Some Pending) (Some Processing) = True"
| "advance (Some Processing) (Some Ready) = True"
| "advance (Some Processing) (Some Failed) = True"
| "advance (Some Ready) (Some Failed) = True"
| "advance old new = False"

text \<open>\<open>w'\<close> has the photo objects, the array and the history of \<open>w\<close>.\<close>

definition sameStore :: "world \<Rightarrow> world \<Rightarrow> bool" where
  "sameStore w w' = (heap w' = heap w \<and> photos w' = photos w \<and> splatHistory w' = splatHistory w)"

text \<open>\<open>w'\<close> is a well-formed store with distinct ids and the array of \<open>w\<close>, and its
  history is that of \<open>w\<close> followed by changes that advance.\<close>

definition forward :: "world \<Rightarrow> world \<Rightarrow> bool" where
  "forward w w' =
     (validRefs w' \<and> distinctIds w' \<and> photos w' = photos w
      \<and> (\<exists>new. splatHistory w' = splatHistory w @ new
                \<and> list_all (\<lambda>(pid, old, new). advance old new) new))"

chapter \<open>Example worlds\<close>

section \<open>Example runs of the poll loop\<close>

text \<open>One tracked job, submitted at clock reading 1000, a network that rejects every
  request, timers that fire on time and a clock that does not move between two readings
  that no \<^verbatim>\<open>await\<close> separates; the examples below change the replies.\<close>

definition job1 :: generation where
  "job1 = \<lparr>requestId = ''job1'', imageUrl = ''blob:cat.jpg'', startTime = 1000, photoId = None\<rparr>"

definition quietNetwork :: sharp_world where
  "quietNetwork = \<lparr>now = 1000, trace = [], activeGenerations = [(''job1'', job1)],
     submitReplies = (\<lambda>n. (0, Rejected)),
     statusReplies = (\<lambda>n. (0, Rejected)),
     resultReplies = (\<lambda>n. (0, Rejected)),
     timerLag = (\<lambda>n. 0), clockTicks = (\<lambda>n. 0)\<rparr>"

definition plyResult :: result_json where
  "plyResult = \<lparr>ply_url = ''https://x/y.ply'', file_name = ''y.ply'', size_bytes = 12345\<rparr>"

text \<open>The backend answers every status query, after 50 ms, with \<^verbatim>\<open>failed\<close>.\<close>

definition failedWorld :: sharp_world where
  "failedWorld = quietNetwork
     \<lparr>statusReplies := (\<lambda>n. (50, HttpOk \<lparr>status = ''failed'', error = Some ''out of memory''\<rparr>))\<rparr>"

text \<open>The job is completed; the first result fetch gets a 502, the later ones the result.\<close>

definition flakyResultWorld :: sharp_world where
  "flakyResultWorld = quietNetwork
     \<lparr>statusReplies := (\<lambda>n. (50, HttpOk \<lparr>status = ''completed'', error = None\<rparr>)),
      resultReplies := (\<lambda>n. if n = 0 then (50, NotOk ''Bad Gateway'') else (50, HttpOk plyResult))\<rparr>"

text \<open>The job stays pending for ever.\<close>

definition pendingWorld :: sharp_world where
  "pendingWorld = quietNetwork
     \<lparr>statusReplies := (\<lambda>n. (50, HttpOk \<lparr>status = ''pending'', error = None\<rparr>))\<rparr>"

text \<open>The job is pending at the first query and completed from the second on.\<close>

definition pendingThenCompleted :: sharp_world where
  "pendingThenCompleted = quietNetwork
     \<lparr>statusReplies := (\<lambda>n. if n = 0 then (50, HttpOk \<lparr>status = ''pending'', error = None\<rparr>)
                              else (50, HttpOk \<lparr>status = ''completed'', error = None\<rparr>)),
      resultReplies := (\<lambda>n. (50, HttpOk plyResult))\<rparr>"

text \<open>The backend needs 1500 ms to answer a status query, and answers \<^verbatim>\<open>completed\<close>;
  the result is there.\<close>

definition lateCompletedWorld :: sharp_world where
  "lateCompletedWorld = quietNetwork
     \<lparr>statusReplies := (\<lambda>n. (1500, HttpOk \<lparr>status = ''completed'', error = None\<rparr>)),
      resultReplies := (\<lambda>n. (50, HttpOk plyResult))\<rparr>"

text \<open>The backend needs 1500 ms to answer a status query, and answers \<^verbatim>\<open>failed\<close>.\<close>

definition lateFailedWorld :: sharp_world where
  "lateFailedWorld = quietNetwork
     \<lparr>statusReplies := (\<lambda>n. (1500, HttpOk \<lparr>status = ''failed'', error = Some ''out of memory''\<rparr>))\<rparr>"

text \<open>The job was submitted at clock reading 1000 and the clock is at 400000; the job is
  pending at the first query and failed from the second on.\<close>

definition pendingThenFailed :: sharp_world where
  "pendingThenFailed = quietNetwork
     \<lparr>now := 400000,
      statusReplies := (\<lambda>n. if n = 0 then (50, HttpOk \<lparr>status = ''pending'', error = None\<rparr>)
                              else (50, HttpOk \<lparr>status = ''failed'', error = Some ''out of memory''\<rparr>))\<rparr>"

text \<open>A progress callback that throws whenever it is called.\<close>

definition throwingCallback :: progress_callback where
  "throwingCallback = Some (\<lambda>msg. Some (Thrown ''status bar is gone''))"

lemmas eval_defs = waitForResult_def waitLoop.simps tick_def pollAttempt_def tryBody_def fetchStatus_def
  fetchResult_def reportProgress_def sleep_def round_seconds_def failureMessage_def
  statusQueries_def resultFetches_def progressMessage_def show_int_def show_nat.simps digit_char_def

lemmas world_defs = quietNetwork_def job1_def plyResult_def failedWorld_def flakyResultWorld_def
  pendingWorld_def pendingThenCompleted_def throwingCallback_def
  lateCompletedWorld_def lateFailedWorld_def pendingThenFailed_def

section \<open>Example stores\<close>

text \<open>A fresh page: nothing in memory, nothing in IndexedDB, every IndexedDB request
  succeeds after 1 ms, the network rejects every request, and the clock does not move
  between two readings that no \<^verbatim>\<open>await\<close> separates.\<close>

definition blankWorld :: world where
  "blankWorld =
     \<lparr>now = 1000, trace = [], activeGenerations = [],
      submitReplies = (\<lambda>n. (0, Rejected)), statusReplies = (\<lambda>n. (0, Rejected)),
      resultReplies = (\<lambda>n. (0, Rejected)), timerLag = (\<lambda>n. 0), clockTicks = (\<lambda>n. 0),
      heap = [], photos = [], albums = [], currentAlbumId = None,
      onPhotosChangedCallback = False, onAlbumsChangedCallback = False,
      photosStore = [], albumsStore = [],
      dbReplies = (\<lambda>n. (1, False)), randomSuffixes = (\<lambda>n. ''abc''),
      objectUrls = (\<lambda>n. ''blob:'' @ show_nat (Suc n)),
      splatHistory = [], isGeneratingSplats = False, readySplatsCount = 0,
      addSplatThrows = (\<lambda>n. False)\<rparr>"

definition catFile :: File where
  "catFile = \<lparr>fileName = ''cat.jpg'', fileType = ''image/jpeg'', fileBytes = ''JFIF''\<rparr>"

definition notesFile :: File where
  "notesFile = \<lparr>fileName = ''notes.txt'', fileType = ''text/plain'', fileBytes = ''hello''\<rparr>"

definition catData :: photoData where
  "catData =
     \<lparr>photo_id = ''photo-1000-abc'', photo_name = ''cat.jpg'', blob = catFile, timestamp = 1000,
      albumId = ''default'', splatUrl = None, splatStatus = Some Pending\<rparr>"

definition dogData :: photoData where
  "dogData =
     \<lparr>photo_id = ''photo-2000-xyz'', photo_name = ''dog.jpg'', blob = catFile, timestamp = 2000,
      albumId = ''album-2000-holiday'', splatUrl = None, splatStatus = Some Pending\<rparr>"

definition catPhoto :: Photo where
  "catPhoto =
     \<lparr>photo_id = ''photo-1000-abc'', photo_name = ''cat.jpg'', blob = catFile, timestamp = 1000,
      albumId = ''default'', splatUrl = None, splatStatus = Some Pending, url = ''blob:0''\<rparr>"

definition defaultAlbum :: Album where
  "defaultAlbum =
     \<lparr>album_id = ''default'', album_name = ''All Memories'', photoCount = 1,
      coverUrl = Some ''blob:0'', createdAt = 900\<rparr>"

text \<open>IndexedDB holds two photos of two albums and no album record.\<close>

definition photosWithoutAlbums :: world where
  "photosWithoutAlbums =
     blankWorld\<lparr>photosStore := [(''photo-1000-abc'', catData), (''photo-2000-xyz'', dogData)]\<rparr>"

text \<open>One pending photo in memory and in IndexedDB, with a listener for photo changes.\<close>

definition onePhoto :: world where
  "onePhoto =
     blankWorld\<lparr>heap := [catPhoto], photos := [0], albums := [defaultAlbum],
                currentAlbumId := Some ''default'', onPhotosChangedCallback := True,
                photosStore := [(''photo-1000-abc'', catData)],
                albumsStore := [(''default'', defaultAlbum)]\<rparr>"

text \<open>The same photo, converted: ready, with the URL of its splat.\<close>

definition oneReadyPhoto :: world where
  "oneReadyPhoto =
     onePhoto\<lparr>heap := [catPhoto\<lparr>splatStatus := Some Ready, splatUrl := Some ''https://x/y.ply''\<rparr>]\<rparr>"

text \<open>A second image.\<close>

definition dogFile :: File where
  "dogFile = \<lparr>fileName = ''dog.png'', fileType = ''image/png'', fileBytes = ''PNG''\<rparr>"

text \<open>The store with one photo, four seconds later.\<close>

definition laterWorld :: world where
  "laterWorld = onePhoto\<lparr>now := 5000\<rparr>"

text \<open>The same, with a clock that moves by 2 ms between the two readings of an object
  literal, and a random source that gives \<open>k3f\<close> and then \<open>9zq\<close>.\<close>

definition tickingWorld :: world where
  "tickingWorld =
     laterWorld\<lparr>clockTicks := (\<lambda>n. 2),
                 randomSuffixes := (\<lambda>n. if n = 0 then ''k3f'' else ''9zq'')\<rparr>"

text \<open>The store with one pending photo, and a backend that accepts the upload as
  \<open>job1\<close>, reports it completed and serves the result.\<close>

definition convertibleWorld :: world where
  "convertibleWorld =
     onePhoto\<lparr>submitReplies := (\<lambda>n. (20, HttpOk \<lparr>request_id = ''job1''\<rparr>)),
               statusReplies := (\<lambda>n. (50, HttpOk \<lparr>status = ''completed'', error = None\<rparr>)),
               resultReplies := (\<lambda>n. (50, HttpOk plyResult))\<rparr>"

text \<open>The same, with a canvas whose \<^verbatim>\<open>addSplat\<close> throws.\<close>

definition brokenCanvasWorld :: world where
  "brokenCanvasWorld = convertibleWorld\<lparr>addSplatThrows := (\<lambda>n. True)\<rparr>"

text \<open>The same backend, and two pending photos in memory that have the same id.\<close>

definition clashingWorld :: world where
  "clashingWorld =
     convertibleWorld\<lparr>heap := [catPhoto, catPhoto\<lparr>photo_name := ''cat2.jpg''\<rparr>], photos := [0, 1]\<rparr>"

lemmas more_examples = dogFile_def laterWorld_def tickingWorld_def convertibleWorld_def brokenCanvasWorld_def
  clashingWorld_def plyResult_def

lemmas add_eval = addPhotosFromFiles_def addLoop.simps isImage_def newPhoto_def tick_def orElse_def
  updateAlbumCount_def countNewPhotos_def updateFirst.simps saveAlbumToDB_def savePhotoToDB_def
  dbRequest_def notifyPhotosChanged_def photoDataOf_def getPhotos_def truthy_def
  show_int_def show_nat.simps digit_char_def

lemmas convert_eval = generateSplatsForPhotos_def convertAll.simps convertPhoto_def tryConvert_def
  publishSplat_def canvasAddSplat_def showStatus_def hideStatusLater_def statusBarCallback_def
  generateSplatFromBlob_def submitBlob_def fetchSubmitFile_def
  waitForResult_def waitLoop.simps tick_def pollAttempt_def tryBody_def fetchStatus_def fetchResult_def
  reportProgress_def sleep_def round_seconds_def failureMessage_def
  updatePhotoSplatStatus_def findPhoto_def setSplat_def truthy_def savePhotoToDB_def
  dbRequest_def notifyPhotosChanged_def photoDataOf_def getPhotos_def
  show_nat.simps digit_char_def

lemmas store_examples = blankWorld_def catFile_def notesFile_def catData_def dogData_def catPhoto_def
  defaultAlbum_def photosWithoutAlbums_def onePhoto_def oneReadyPhoto_def

lemmas store_eval = updatePhotoSplatStatus_def findPhoto_def setSplat_def truthy_def savePhotoToDB_def
  dbRequest_def notifyPhotosChanged_def photoDataOf_def getPhotos_def getPhotoById_def

chapter \<open>What the operations do\<close>

section \<open>The poll loop: unfolding, induction and one attempt\<close>

subsection \<open>A tick of the clock\<close>

lemma tick_simps [simp]:
  "now (tick w) = now w + int (clockTicks w 0)"
  "trace (tick w) = trace w"
  "activeGenerations (tick w) = activeGenerations w"
  "statusReplies (tick w) = statusReplies w"
  "resultReplies (tick w) = resultReplies w"
  "timerLag (tick w) = timerLag w"
  by (simp_all add: tick_def)

subsection \<open>Unfolding and induction\<close>

lemma waitLoop_timeout:
  "\<not> now w - start < T \<Longrightarrow> waitLoop rid T cb start a w = (Inl (Error ''sharp_timeout''), w)"
  by (simp add: waitLoop.simps)

lemma waitLoop_return:
  "now w - start < T \<Longrightarrow> pollAttempt rid cb (round_seconds (now (tick w) - start)) (a + 1) (tick w) = (Some r, w1)
    \<Longrightarrow> waitLoop rid T cb start a w = (Inr r, w1)"
  by (simp add: waitLoop.simps [of rid T cb start a w])

lemma waitLoop_continue:
  "now w - start < T \<Longrightarrow> pollAttempt rid cb (round_seconds (now (tick w) - start)) (a + 1) (tick w) = (None, w1)
    \<Longrightarrow> waitLoop rid T cb start a w =
        waitLoop rid T cb start (a + 1) (sleep (min 5000 (1000 + int (a + 1) * 200)) w1)"
  by (simp add: waitLoop.simps [of rid T cb start a w])

lemma waitLoop_induct [case_names timeout return continue]:
  assumes "\<And>rid T cb start a w. \<not> now w - start < T \<Longrightarrow> P rid T cb start a w"
    and "\<And>rid T cb start a w r w1. now w - start < T \<Longrightarrow>
           pollAttempt rid cb (round_seconds (now (tick w) - start)) (a + 1) (tick w) = (Some r, w1) \<Longrightarrow>
           P rid T cb start a w"
    and "\<And>rid T cb start a w w1. now w - start < T \<Longrightarrow>
           pollAttempt rid cb (round_seconds (now (tick w) - start)) (a + 1) (tick w) = (None, w1) \<Longrightarrow>
           P rid T cb start (a + 1) (sleep (min 5000 (1000 + int (a + 1) * 200)) w1) \<Longrightarrow>
           P rid T cb start a w"
  shows "P rid T cb start a (w :: 'z sharp_world_scheme)"
proof (induction rid T cb start a w rule: waitLoop.induct)
  case (1 rid T cb start a w)
  show ?case
  proof (cases "now w - start < T")
    case False
    then show ?thesis by (rule assms(1))
  next
    case True
    obtain r w1 where p: "pollAttempt rid cb (round_seconds (now (tick w) - start)) (a + 1) (tick w) = (r, w1)"
      by (cases "pollAttempt rid cb (round_seconds (now (tick w) - start)) (a + 1) (tick w)")
    show ?thesis
    proof (cases r)
      case None
      have "P rid T cb start (a + 1) (sleep (min 5000 (1000 + int (a + 1) * 200)) w1)"
        by (rule "1.IH" [OF True p [symmetric] None])
      with True p None show ?thesis
        using assms(3) [of w start T rid cb a w1] by simp
    next
      case (Some res)
      with True p show ?thesis
        using assms(2) [of w start T rid cb a res w1] by simp
    qed
  qed
qed

lemma waitLoop_failure:
  "waitLoop rid T cb start a w = (Inl e, w') \<Longrightarrow> e = Error ''sharp_timeout''"
proof (induction rid T cb start a w rule: waitLoop_induct)
  case (timeout rid T cb start a w)
  then show ?case by (simp add: waitLoop_timeout)
next
  case (return rid T cb start a w r w1)
  then show ?case by (simp add: waitLoop_return)
next
  case (continue rid T cb start a w w1)
  then show ?case by (simp add: waitLoop_continue)
qed

subsection \<open>What one attempt does to the world\<close>

lemmas poll_defs = pollAttempt_def tryBody_def fetchStatus_def fetchResult_def reportProgress_def



lemma pollAttempt_statusQueries:
  assumes "pollAttempt rid cb el n w = (r, w1)"
  shows "statusQueries (trace w1) = Suc (statusQueries (trace w))"
  using assms
  by (auto simp: poll_defs statusQueries_def split: response.splits option.splits if_splits)

lemma pollAttempt_pollSchedule:
  assumes "pollAttempt rid cb el n w = (r, w1)"
  shows "pollSchedule (trace w1) = pollSchedule (trace w) @ [FetchStatus rid]"
  using assms
  by (auto simp: poll_defs pollSchedule_def split: response.splits option.splits if_splits)

lemma statusQueries_waitLoop:
  "statusQueries (trace w) \<le> statusQueries (trace (snd (waitLoop rid T cb start a w)))"
proof (induction rid T cb start a w rule: waitLoop_induct)
  case (timeout rid T cb start a w)
  then show ?case by (simp add: waitLoop_timeout)
next
  case (return rid T cb start a w r w1)
  then show ?case by (simp add: waitLoop_return pollAttempt_statusQueries)
next
  case (continue rid T cb start a w w1)
  from continue(2) have "statusQueries (trace (sleep (min 5000 (1000 + int (a + 1) * 200)) w1))
      = Suc (statusQueries (trace w))"
    by (simp add: sleep_def statusQueries_def pollAttempt_statusQueries [unfolded statusQueries_def])
  with continue show ?case by (simp add: waitLoop_continue)
qed


lemma waitLoop_schedule:
  "\<exists>k. pollSchedule (trace (snd (waitLoop rid T cb start a w))) =
         pollSchedule (trace w)
         @ concat (map (\<lambda>n. [FetchStatus rid, SetTimeout (min 5000 (1000 + int n * 200))]) [Suc a ..< Suc a + k])
         @ (case fst (waitLoop rid T cb start a w) of Inl e \<Rightarrow> [] | Inr r \<Rightarrow> [FetchStatus rid])"
proof (induction rid T cb start a w rule: waitLoop_induct)
  case (timeout rid T cb start a w)
  then have "pollSchedule (trace (snd (waitLoop rid T cb start a w))) =
         pollSchedule (trace w)
         @ concat (map (\<lambda>n. [FetchStatus rid, SetTimeout (min 5000 (1000 + int n * 200))]) [Suc a ..< Suc a + 0])
         @ (case fst (waitLoop rid T cb start a w) of Inl e \<Rightarrow> [] | Inr r \<Rightarrow> [FetchStatus rid])"
    by (simp add: waitLoop_timeout)
  then show ?case by blast
next
  case (return rid T cb start a w r w1)
  then have "pollSchedule (trace (snd (waitLoop rid T cb start a w))) =
         pollSchedule (trace w)
         @ concat (map (\<lambda>n. [FetchStatus rid, SetTimeout (min 5000 (1000 + int n * 200))]) [Suc a ..< Suc a + 0])
         @ (case fst (waitLoop rid T cb start a w) of Inl e \<Rightarrow> [] | Inr r \<Rightarrow> [FetchStatus rid])"
    by (simp add: waitLoop_return pollAttempt_pollSchedule)
  then show ?case by blast
next
  case (continue rid T cb start a w w1)
  let ?ms = "min 5000 (1000 + int (a + 1) * 200)"
  let ?w2 = "sleep ?ms w1"
  let ?f = "\<lambda>n. [FetchStatus rid, SetTimeout (min 5000 (1000 + int n * 200))]"
  have unfold: "waitLoop rid T cb start a w = waitLoop rid T cb start (a + 1) ?w2"
    using continue(1,2) by (rule waitLoop_continue)
  have s2: "pollSchedule (trace ?w2) = pollSchedule (trace w) @ ?f (Suc a)"
    using pollAttempt_pollSchedule [OF continue(2)]
    by (simp add: sleep_def pollSchedule_def)
  from continue.IH obtain k where
    k: "pollSchedule (trace (snd (waitLoop rid T cb start (a + 1) ?w2))) =
         pollSchedule (trace ?w2)
         @ concat (map ?f [Suc (a + 1) ..< Suc (a + 1) + k])
         @ (case fst (waitLoop rid T cb start (a + 1) ?w2) of Inl e \<Rightarrow> [] | Inr r \<Rightarrow> [FetchStatus rid])"
    by blast
  have "[Suc a ..< Suc a + Suc k] = Suc a # [Suc (a + 1) ..< Suc (a + 1) + k]"
    by (simp add: upt_conv_Cons)
  then have "concat (map ?f [Suc a ..< Suc a + Suc k]) = ?f (Suc a) @ concat (map ?f [Suc (a + 1) ..< Suc (a + 1) + k])"
    by simp
  with k s2 unfold
  have "pollSchedule (trace (snd (waitLoop rid T cb start a w))) =
         pollSchedule (trace w)
         @ concat (map ?f [Suc a ..< Suc a + Suc k])
         @ (case fst (waitLoop rid T cb start a w) of Inl e \<Rightarrow> [] | Inr r \<Rightarrow> [FetchStatus rid])"
    by simp
  then show ?case by blast
qed

lemma waitLoop_budget_spent:
  "fst (waitLoop rid T cb start a w) = Inl e \<Longrightarrow> T \<le> now (snd (waitLoop rid T cb start a w)) - start"
proof (induction rid T cb start a w rule: waitLoop_induct)
  case (timeout rid T cb start a w)
  then show ?case by (simp add: waitLoop_timeout)
next
  case (return rid T cb start a w r w1)
  then show ?case by (simp add: waitLoop_return)
next
  case (continue rid T cb start a w w1)
  then show ?case by (simp add: waitLoop_continue)
qed

text \<open>With a budget that is not yet spent the loop makes at least one status query.\<close>

lemma waitLoop_first_query:
  assumes "now w - start < T"
  shows "statusQueries (trace w) < statusQueries (trace (snd (waitLoop rid T cb start a w)))"
proof -
  obtain r w1 where p: "pollAttempt rid cb (round_seconds (now (tick w) - start)) (a + 1) (tick w) = (r, w1)"
    by (cases "pollAttempt rid cb (round_seconds (now (tick w) - start)) (a + 1) (tick w)")
  from pollAttempt_statusQueries [OF this]
  have q: "statusQueries (trace w1) = Suc (statusQueries (trace w))"
    by simp
  show ?thesis
  proof (cases r)
    case (Some res)
    with assms p q show ?thesis by (simp add: waitLoop_return)
  next
    case None
    let ?w2 = "sleep (min 5000 (1000 + int (a + 1) * 200)) w1"
    have "statusQueries (trace ?w2) = Suc (statusQueries (trace w))"
      using q by (simp add: sleep_def statusQueries_def)
    moreover have "statusQueries (trace ?w2) \<le> statusQueries (trace (snd (waitLoop rid T cb start (a + 1) ?w2)))"
      by (rule statusQueries_waitLoop)
    moreover have "waitLoop rid T cb start a w = waitLoop rid T cb start (a + 1) ?w2"
      using assms p None by (simp add: waitLoop_continue)
    ultimately show ?thesis by simp
  qed
qed

subsection \<open>The rounds of the loop\<close>

text \<open>Every status query that does not end the call is followed by its timer, so the
  number of timers is the number of status queries, less one when the call returns a
  result.\<close>

lemma statusQueries_pollSchedule: "length (filter isFetchStatus (pollSchedule tr)) = statusQueries tr"
proof -
  have "filter isFetchStatus (filter (\<lambda>e. isFetchStatus e \<or> isSetTimeout e) tr) = filter isFetchStatus tr"
    by (induction tr) auto
  then show ?thesis by (simp add: pollSchedule_def statusQueries_def)
qed

lemma queries_of_rounds:
  "length (filter isFetchStatus (concat (map (\<lambda>n. [FetchStatus rid, SetTimeout (g n)]) ns))) = length ns"
  by (induction ns) simp_all

lemma waitLoop_rounds:
  "pollSchedule (trace (snd (waitLoop rid T cb start a w))) =
     pollSchedule (trace w)
     @ concat (map (\<lambda>n. [FetchStatus rid, SetTimeout (min 5000 (1000 + int n * 200))])
         [Suc a ..< Suc a + (statusQueries (trace (snd (waitLoop rid T cb start a w))) - statusQueries (trace w)
                             - (case fst (waitLoop rid T cb start a w) of Inl e \<Rightarrow> 0 | Inr r \<Rightarrow> 1))])
     @ (case fst (waitLoop rid T cb start a w) of Inl e \<Rightarrow> [] | Inr r \<Rightarrow> [FetchStatus rid])"
proof -
  let ?w' = "snd (waitLoop rid T cb start a w)"
  let ?f = "\<lambda>n. [FetchStatus rid, SetTimeout (min 5000 (1000 + int n * 200))]"
  let ?last = "case fst (waitLoop rid T cb start a w) of Inl e \<Rightarrow> [] | Inr r \<Rightarrow> [FetchStatus rid]"
  from waitLoop_schedule [of rid T cb start a w] obtain k where
    k: "pollSchedule (trace ?w') = pollSchedule (trace w) @ concat (map ?f [Suc a ..< Suc a + k]) @ ?last"
    by blast
  have "length (filter isFetchStatus (pollSchedule (trace ?w'))) =
      length (filter isFetchStatus (pollSchedule (trace w)))
      + length (filter isFetchStatus (concat (map ?f [Suc a ..< Suc a + k])))
      + length (filter isFetchStatus ?last)"
    unfolding k by simp
  then have "statusQueries (trace ?w') = statusQueries (trace w) + k + length (filter isFetchStatus ?last)"
    unfolding statusQueries_pollSchedule queries_of_rounds by simp
  then have "k = statusQueries (trace ?w') - statusQueries (trace w)
                 - (case fst (waitLoop rid T cb start a w) of Inl e \<Rightarrow> 0 | Inr r \<Rightarrow> 1)"
    by (simp split: sum.splits)
  with k show ?thesis by simp
qed

lemma first_five:
  assumes "5 \<le> k"
  shows "[Suc 0 ..< Suc k] = [1, 2, 3, 4, 5] @ [6 ..< Suc k]"
proof -
  from assms obtain m where k: "k = 5 + m"
    using le_Suc_ex by blast
  have "[Suc 0 ..< 6 + m] = [Suc 0 ..< 6] @ [6 ..< 6 + m]"
    by (rule upt_add_eq_append) simp
  moreover have "[Suc 0 ..< 6] = [1, 2, 3, 4, 5]"
    by (simp add: upt_conv_Cons)
  ultimately show ?thesis
    unfolding k by simp
qed

lemma five_rounds:
  assumes "5 \<le> k"
  shows "take 10 (concat (map (\<lambda>n. [a, g n]) [Suc 0 ..< Suc k]) @ rest) =
     [a, g 1, a, g 2, a, g 3, a, g 4, a, g 5]"
  unfolding first_five [OF assms] by simp

subsection \<open>The tracker\<close>






subsection \<open>The manual sweep\<close>


section \<open>The photo store: what the operations do\<close>

subsection \<open>updatePhotoSplatStatus\<close>

lemma findPhoto_Some:
  "findPhoto pid w = Some r \<Longrightarrow> r \<in> set (photos w) \<and> photo_id (heap w ! r) = pid"
  by (auto simp: findPhoto_def find_Some_iff)

lemma map_of_dbPut_same: "map_of (dbPut k v xs) k = Some v"
  by (induction xs) auto

lemma map_of_dbPut_other: "k' \<noteq> k \<Longrightarrow> map_of (dbPut k v xs) k' = map_of xs k'"
  by (induction xs) auto

lemma map_of_dbPut: "map_of (dbPut k v xs) = (map_of xs)(k \<mapsto> v)"
  by (rule ext) (simp add: map_of_dbPut_same map_of_dbPut_other)

lemma photo_id_setSplat: "photo_id (setSplat st u p) = photo_id p"
  by (simp add: setSplat_def)

lemmas store_defs = updatePhotoSplatStatus_def savePhotoToDB_def dbRequest_def notifyPhotosChanged_def

lemma updatePhotoSplatStatus_unknown:
  "findPhoto pid w = None \<Longrightarrow> updatePhotoSplatStatus pid st u w = (None, w)"
  by (simp add: updatePhotoSplatStatus_def)

lemma updatePhotoSplatStatus_heap:
  assumes "findPhoto pid w = Some r"
  shows "heap (snd (updatePhotoSplatStatus pid st u w)) = (heap w)[r := setSplat st u (heap w ! r)]
       \<and> photos (snd (updatePhotoSplatStatus pid st u w)) = photos w
       \<and> splatHistory (snd (updatePhotoSplatStatus pid st u w)) =
           splatHistory w @ [(pid, splatStatus (heap w ! r), st)]"
  using assms by (simp add: store_defs split: prod.splits bool.splits)

lemma getPhotos_update:
  assumes "validRefs w" and "findPhoto pid w = Some r"
  shows "getPhotos (snd (updatePhotoSplatStatus pid st u w)) =
           map (\<lambda>q. if q = r then setSplat st u (heap w ! r) else heap w ! q) (photos w)"
proof -
  from assms have "r < length (heap w)"
    using findPhoto_Some validRefs_def by blast
  then show ?thesis
    using updatePhotoSplatStatus_heap [OF assms(2), of st u]
    by (simp add: getPhotos_def nth_list_update)
qed

lemma photo_id_heap_update:
  "photo_id (hp[r := setSplat st u (hp ! r)] ! q) = photo_id (hp ! q)"
  by (cases "r < length hp") (auto simp: nth_list_update photo_id_setSplat list_update_beyond)

lemma findPhoto_update:
  assumes "findPhoto pid w = Some r"
  shows "findPhoto pid' (snd (updatePhotoSplatStatus pid st u w)) = findPhoto pid' w"
  using updatePhotoSplatStatus_heap [OF assms, of st u]
  by (simp add: findPhoto_def photo_id_heap_update)

subsection \<open>Loading photos\<close>

lemma map_nth_upt_drop: "length xs = k + n \<Longrightarrow> map ((!) xs) [k ..< k + n] = drop k xs"
  by (auto intro!: nth_equalityI)

lemma makePhotos_spec:
  "makePhotos ds w = (rs, w') \<Longrightarrow>
     rs = [length (heap w) ..< length (heap w')]
   \<and> length (heap w') = length (heap w) + length ds
   \<and> take (length (heap w)) (heap w') = heap w
   \<and> map photoDataOf (drop (length (heap w)) (heap w')) = ds
   \<and> photos w' = photos w \<and> albums w' = albums w \<and> currentAlbumId w' = currentAlbumId w
   \<and> albumsStore w' = albumsStore w \<and> photosStore w' = photosStore w
   \<and> trace w' = trace w \<and> now w' = now w"
proof (induction ds arbitrary: w rs w')
  case Nil
  then show ?case by simp
next
  case (Cons d ds)
  let ?p = "\<lparr>photo_id = photo_id d, photo_name = photo_name d, blob = blob d,
              timestamp = timestamp d, albumId = albumId d, splatUrl = splatUrl d,
              splatStatus = splatStatus d, url = objectUrls w 0\<rparr>"
  let ?w1 = "w\<lparr>objectUrls := (\<lambda>n. objectUrls w (Suc n)), heap := heap w @ [?p]\<rparr>"
  obtain rs1 w1' where m: "makePhotos ds ?w1 = (rs1, w1')"
    by (cases "makePhotos ds ?w1")
  with Cons.prems have rs: "rs = length (heap w) # rs1" and w': "w' = w1'"
    by auto
  have pd: "photoDataOf ?p = d" by (simp add: photoDataOf_def)
  from Cons.IH [OF m] have ih:
    "rs1 = [Suc (length (heap w)) ..< length (heap w1')]"
    "length (heap w1') = Suc (length (heap w)) + length ds"
    "take (Suc (length (heap w))) (heap w1') = heap w @ [?p]"
    "map photoDataOf (drop (Suc (length (heap w))) (heap w1')) = ds"
    "photos w1' = photos w" "albums w1' = albums w" "currentAlbumId w1' = currentAlbumId w"
    "albumsStore w1' = albumsStore w" "photosStore w1' = photosStore w"
    "trace w1' = trace w" "now w1' = now w"
    by simp_all
  have "take (length (heap w)) (heap w1') =
        take (length (heap w)) (take (Suc (length (heap w))) (heap w1'))"
    by simp
  then have t: "take (length (heap w)) (heap w1') = heap w"
    by (simp only: ih(3)) simp
  have "heap w1' ! length (heap w) = take (Suc (length (heap w))) (heap w1') ! length (heap w)"
    by simp
  then have n: "heap w1' ! length (heap w) = ?p"
    by (simp only: ih(3) nth_append_length)
  have lt: "length (heap w) < length (heap w1')"
    using ih(2) by simp
  then have d: "drop (length (heap w)) (heap w1') = ?p # drop (Suc (length (heap w))) (heap w1')"
    using n Cons_nth_drop_Suc [of "length (heap w)" "heap w1'"] by simp
  have u: "[length (heap w) ..< length (heap w1')] = length (heap w) # [Suc (length (heap w)) ..< length (heap w1')]"
    using lt by (rule upt_conv_Cons)
  have 1: "rs = [length (heap w) ..< length (heap w')]"
    using rs w' ih(1) u by simp
  have 2: "length (heap w') = length (heap w) + length (d # ds)"
    using w' ih(2) by simp
  have 3: "map photoDataOf (drop (length (heap w)) (heap w')) = d # ds"
    using w' d pd ih(4) by simp
  from 1 2 3 t w' ih(5-11) show ?case by simp
qed

lemma loadPhotosFromDB_spec:
  assumes "\<not> snd (dbReplies w 0)" and "loadPhotosFromDB aid w = (res, w')"
  shows "res = Inr [length (heap w) ..< length (heap w')]
   \<and> length (heap w) \<le> length (heap w')
   \<and> map photoDataOf (drop (length (heap w)) (heap w')) =
        (if truthy aid then filter (\<lambda>d. Some (albumId d) = aid) (map snd (photosStore w))
         else map snd (photosStore w))
   \<and> photos w' = photos w \<and> albums w' = albums w \<and> currentAlbumId w' = currentAlbumId w
   \<and> albumsStore w' = albumsStore w \<and> photosStore w' = photosStore w"
proof -
  let ?w1 = "w\<lparr>now := now w + int (fst (dbReplies w 0)), dbReplies := (\<lambda>n. dbReplies w (Suc n))\<rparr>"
  let ?ds = "if truthy aid then filter (\<lambda>d. Some (albumId d) = aid) (map snd (photosStore w))
             else map snd (photosStore w)"
  obtain rs w2 where m: "makePhotos ?ds ?w1 = (rs, w2)"
    by (cases "makePhotos ?ds ?w1")
  with assms have "res = Inr rs" "w' = w2"
    by (auto simp: loadPhotosFromDB_def dbRequest_def split: if_splits)
  with makePhotos_spec [OF m] show ?thesis by simp
qed

lemma saveAlbumToDB_ok:
  "\<not> snd (dbReplies w 0) \<Longrightarrow>
   saveAlbumToDB a w =
     (None, w\<lparr>now := now w + int (fst (dbReplies w 0)), dbReplies := (\<lambda>n. dbReplies w (Suc n)),
              albumsStore := dbPut (album_id a) a (albumsStore w)\<rparr>)"
  by (simp add: saveAlbumToDB_def dbRequest_def)

text \<open>
  When IndexedDB already holds albums, \<open>initPhotoService\<close> creates none: the albums in
  memory are the stored ones, the first of them is the current album, and the photos in
  memory are the stored photos of that album. The identifier of the first album has to be
  non-empty: line 101 tests it for truth, and loads every photo otherwise.
\<close>

lemma initPhotoService_existing_albums:
  assumes "albumsStore w = (k, a) # rest" and "album_id a \<noteq> []"
    and "\<not> snd (dbReplies w 0)" and "\<not> snd (dbReplies w 1)"
  shows "albums (snd (initPhotoService w)) = map snd (albumsStore w)
       \<and> albumsStore (snd (initPhotoService w)) = albumsStore w
       \<and> currentAlbumId (snd (initPhotoService w)) = Some (album_id a)
       \<and> map photoDataOf (getPhotos (snd (initPhotoService w))) =
           filter (\<lambda>d. albumId d = album_id a) (map snd (photosStore w))"
proof -
  have ok: "\<not> snd (dbReplies w (Suc 0))"
    using assms(4) by simp
  define w1 where "w1 = snd (loadAlbumsFromDB w)"
  have la: "loadAlbumsFromDB w = (Inr (a # map snd rest), w1)"
    using assms(1,3) unfolding w1_def by (simp add: loadAlbumsFromDB_def dbRequest_def)
  have ed: "ensureDefaultAlbum (w1\<lparr>albums := a # map snd rest\<rparr>) = (None, w1\<lparr>albums := a # map snd rest\<rparr>)"
    by (simp add: ensureDefaultAlbum_def)
  have w1: "albumsStore w1 = albumsStore w" "photosStore w1 = photosStore w"
    "heap w1 = heap w" "\<not> snd (dbReplies w1 0)"
    using assms(3) ok unfolding w1_def
    by (simp_all add: loadAlbumsFromDB_def dbRequest_def)
  let ?w2 = "w1\<lparr>albums := a # map snd rest, currentAlbumId := Some (album_id a)\<rparr>"
  obtain res w3 where lp: "loadPhotosFromDB (Some (album_id a)) ?w2 = (res, w3)"
    by (cases "loadPhotosFromDB (Some (album_id a)) ?w2")
  have spec: "res = Inr [length (heap w) ..< length (heap w3)]"
    "length (heap w) \<le> length (heap w3)"
    "map photoDataOf (drop (length (heap w)) (heap w3)) =
       filter (\<lambda>d. albumId d = album_id a) (map snd (photosStore w))"
    "albums w3 = a # map snd rest" "albumsStore w3 = albumsStore w" "currentAlbumId w3 = Some (album_id a)"
    using loadPhotosFromDB_spec [OF _ lp] w1 assms(2) by (simp_all add: truthy_def)
  have init: "initPhotoService w =
      (Inr ([length (heap w) ..< length (heap w3)], a # map snd rest),
       w3\<lparr>photos := [length (heap w) ..< length (heap w3)]\<rparr>)"
    using spec(1,4) by (simp add: initPhotoService_def la ed lp)
  have "map ((!) (heap w3)) [length (heap w) ..< length (heap w3)] = drop (length (heap w)) (heap w3)"
    using spec(2) map_nth_upt_drop [of "heap w3" "length (heap w)" "length (heap w3) - length (heap w)"]
    by simp
  with init spec assms(1) show ?thesis
    by (simp add: getPhotos_def)
qed

subsection \<open>addPhotosFromFiles\<close>

lemma savePhotoToDB_ok:
  "\<not> snd (dbReplies w 0) \<Longrightarrow>
   savePhotoToDB p w =
     (None, w\<lparr>now := now w + int (fst (dbReplies w 0)), dbReplies := (\<lambda>n. dbReplies w (Suc n)),
              photosStore := dbPut (photo_id p) (photoDataOf p) (photosStore w)\<rparr>)"
  by (simp add: savePhotoToDB_def dbRequest_def)

lemma createdFrom_newPhoto: "createdFrom target f (newPhoto f target w)"
  by (simp add: createdFrom_def newPhoto_def)

lemma idClock_shift:
  assumes "now w1 = now w + int (clockTicks w 0) + int (fst (dbReplies w 0))"
    and "clockTicks w1 = (\<lambda>n. clockTicks w (Suc n))"
    and "dbReplies w1 = (\<lambda>n. dbReplies w (Suc n))"
  shows "idClock w1 i = idClock w (Suc i)"
  by (induction i) (simp_all add: assms)

lemma newIds_Suc:
  assumes "now w1 = now w + int (clockTicks w 0) + int (fst (dbReplies w 0))"
    and "clockTicks w1 = (\<lambda>n. clockTicks w (Suc n))"
    and "dbReplies w1 = (\<lambda>n. dbReplies w (Suc n))"
    and "randomSuffixes w1 = (\<lambda>n. randomSuffixes w (Suc n))"
  shows "newIds w (Suc n) = (''photo-'' @ show_int (now w) @ ''-'' @ randomSuffixes w 0) # newIds w1 n"
    and "newTimestamps w (Suc n) = (now w + int (clockTicks w 0)) # newTimestamps w1 n"
  unfolding newIds_def newTimestamps_def map_upt_Suc
  by (simp_all add: idClock_shift [OF assms(1-3)] assms(2,4))

lemma addLoop_spec:
  assumes "\<forall>n. \<not> snd (dbReplies w n)" and "addLoop files target acc w = (res, w')"
  shows "res = Inr (acc @ [length (heap w) ..< length (heap w')])
       \<and> length (heap w) \<le> length (heap w')
       \<and> take (length (heap w)) (heap w') = heap w
       \<and> list_all2 (createdFrom target) (filter isImage files) (drop (length (heap w)) (heap w'))
       \<and> photos w' = photos w @ [length (heap w) ..< length (heap w')]
       \<and> map_of (photosStore w') = persist (drop (length (heap w)) (heap w')) (map_of (photosStore w))
       \<and> (\<forall>n. \<not> snd (dbReplies w' n))
       \<and> albums w' = albums w \<and> currentAlbumId w' = currentAlbumId w
       \<and> map photo_id (drop (length (heap w)) (heap w')) = newIds w (length (heap w') - length (heap w))
       \<and> map timestamp (drop (length (heap w)) (heap w')) =
           newTimestamps w (length (heap w') - length (heap w))"
  using assms
proof (induction files arbitrary: acc w res w')
  case Nil
  then show ?case by (simp add: persist_def newIds_def newTimestamps_def)
next
  case (Cons f fs)
  show ?case
  proof (cases "isImage f")
    case False
    with Cons.prems have "addLoop fs target acc w = (res, w')" by simp
    from Cons.IH [OF Cons.prems(1) this] False show ?thesis by simp
  next
    case True
    let ?p = "newPhoto f target w"
    let ?k = "length (heap w)"
    define w1 where "w1 = snd (savePhotoToDB ?p
                ((tick w)\<lparr>randomSuffixes := (\<lambda>n. randomSuffixes w (Suc n)),
                          objectUrls := (\<lambda>n. objectUrls w (Suc n)),
                          heap := heap w @ [?p],
                          photos := photos w @ [?k]\<rparr>))"
    have sv: "savePhotoToDB ?p
                ((tick w)\<lparr>randomSuffixes := (\<lambda>n. randomSuffixes w (Suc n)),
                          objectUrls := (\<lambda>n. objectUrls w (Suc n)),
                          heap := heap w @ [?p],
                          photos := photos w @ [?k]\<rparr>) = (None, w1)"
      using Cons.prems(1) unfolding w1_def by (simp add: savePhotoToDB_ok tick_def)
    have w1: "heap w1 = heap w @ [?p]" "photos w1 = photos w @ [?k]"
      "photosStore w1 = dbPut (photo_id ?p) (photoDataOf ?p) (photosStore w)"
      "\<forall>n. \<not> snd (dbReplies w1 n)" "albums w1 = albums w" "currentAlbumId w1 = currentAlbumId w"
      using Cons.prems(1) unfolding w1_def by (simp_all add: savePhotoToDB_ok tick_def)
    have streams: "now w1 = now w + int (clockTicks w 0) + int (fst (dbReplies w 0))"
      "clockTicks w1 = (\<lambda>n. clockTicks w (Suc n))"
      "dbReplies w1 = (\<lambda>n. dbReplies w (Suc n))"
      "randomSuffixes w1 = (\<lambda>n. randomSuffixes w (Suc n))"
      using Cons.prems(1) unfolding w1_def by (simp_all add: savePhotoToDB_ok tick_def)
    from Cons.prems(2) True sv have rec: "addLoop fs target (acc @ [?k]) w1 = (res, w')"
      by simp
    from Cons.IH [OF w1(4) rec] w1 have ih:
      "res = Inr ((acc @ [?k]) @ [Suc ?k ..< length (heap w')])"
      "Suc ?k \<le> length (heap w')"
      "take (Suc ?k) (heap w') = heap w @ [?p]"
      "list_all2 (createdFrom target) (filter isImage fs) (drop (Suc ?k) (heap w'))"
      "photos w' = (photos w @ [?k]) @ [Suc ?k ..< length (heap w')]"
      "map_of (photosStore w') =
         persist (drop (Suc ?k) (heap w')) (map_of (dbPut (photo_id ?p) (photoDataOf ?p) (photosStore w)))"
      "\<forall>n. \<not> snd (dbReplies w' n)" "albums w' = albums w" "currentAlbumId w' = currentAlbumId w"
      "map photo_id (drop (Suc ?k) (heap w')) = newIds w1 (length (heap w') - Suc ?k)"
      "map timestamp (drop (Suc ?k) (heap w')) = newTimestamps w1 (length (heap w') - Suc ?k)"
      by simp_all
    have lt: "?k < length (heap w')"
      using ih(2) by simp
    have u: "[?k ..< length (heap w')] = ?k # [Suc ?k ..< length (heap w')]"
      using lt by (rule upt_conv_Cons)
    have "take ?k (heap w') = take ?k (take (Suc ?k) (heap w'))"
      by simp
    then have t: "take ?k (heap w') = heap w"
      by (simp only: ih(3)) simp
    have "heap w' ! ?k = take (Suc ?k) (heap w') ! ?k"
      by simp
    then have n: "heap w' ! ?k = ?p"
      by (simp only: ih(3) nth_append_length)
    have d: "drop ?k (heap w') = ?p # drop (Suc ?k) (heap w')"
      using lt n Cons_nth_drop_Suc [of ?k "heap w'"] by simp
    have 1: "res = Inr (acc @ [?k ..< length (heap w')])"
      using ih(1) u by simp
    have 4: "list_all2 (createdFrom target) (filter isImage (f # fs)) (drop ?k (heap w'))"
      using True d ih(4) createdFrom_newPhoto by simp
    have 5: "photos w' = photos w @ [?k ..< length (heap w')]"
      using ih(5) u by simp
    have 6: "map_of (photosStore w') = persist (drop ?k (heap w')) (map_of (photosStore w))"
      using ih(6) d by (simp add: persist_def map_of_dbPut)
    have len: "length (heap w') - ?k = Suc (length (heap w') - Suc ?k)"
      using lt by simp
    have 10: "map photo_id (drop ?k (heap w')) = newIds w (length (heap w') - ?k)"
      unfolding len newIds_Suc(1) [OF streams] d using ih(10) by (simp add: newPhoto_def)
    have 11: "map timestamp (drop ?k (heap w')) = newTimestamps w (length (heap w') - ?k)"
      unfolding len newIds_Suc(2) [OF streams] d using ih(11) by (simp add: newPhoto_def tick_def)
    from 1 lt t 4 5 6 ih(7-9) 10 11 show ?thesis by simp
  qed
qed

lemma updateAlbumCount_frame:
  assumes "updateAlbumCount target newPhotos w = (res, w')" and "\<not> snd (dbReplies w 0)"
  shows "res = None \<and> heap w' = heap w \<and> photos w' = photos w \<and> photosStore w' = photosStore w"
  using assms
  by (auto simp: updateAlbumCount_def saveAlbumToDB_def dbRequest_def split: option.splits)

lemma persist_snoc: "persist (ps @ [p]) m = (persist ps m)(photo_id p \<mapsto> photoDataOf p)"
  by (simp add: persist_def)

lemma persist_other: "k \<notin> photo_id ` set ps \<Longrightarrow> persist ps m k = m k"
  by (induction ps rule: rev_induct) (simp_all add: persist_snoc, simp add: persist_def)

lemma persist_some:
  "p \<in> set ps \<Longrightarrow> \<exists>q \<in> set ps. photo_id q = photo_id p \<and> persist ps m (photo_id p) = Some (photoDataOf q)"
proof (induction ps rule: rev_induct)
  case Nil
  then show ?case by simp
next
  case (snoc x xs)
  show ?case
  proof (cases "photo_id x = photo_id p")
    case True
    then show ?thesis by (auto simp: persist_snoc)
  next
    case False
    with snoc.prems have "p \<in> set xs" by auto
    from snoc.IH [OF this] False show ?thesis by (auto simp: persist_snoc)
  qed
qed

lemma persist_own:
  assumes "distinct (map photo_id ps)" and "p \<in> set ps"
  shows "persist ps m (photo_id p) = Some (photoDataOf p)"
proof -
  from persist_some [OF assms(2)] obtain q where
    q: "q \<in> set ps" "photo_id q = photo_id p" "persist ps m (photo_id p) = Some (photoDataOf q)"
    by blast
  from assms q(1,2) have "q = p"
    by (meson distinct_map inj_onD)
  with q(3) show ?thesis by simp
qed

text \<open>Fresh random suffixes give ids that differ from each other and from the ids the
  store knows.\<close>

lemma endsWith_append: "endsWith (a @ s) s"
  by (simp add: endsWith_def)

lemma same_tail:
  assumes "a @ c # s = b @ c # t" and "c \<notin> set s" and "c \<notin> set t"
  shows "s = t"
proof -
  from assms(1) obtain us where
    "(a = b @ us \<and> us @ c # s = c # t) \<or> (a @ us = b \<and> c # s = us @ c # t)"
    unfolding append_eq_append_conv2 by blast
  then show ?thesis
  proof
    assume "a = b @ us \<and> us @ c # s = c # t"
    then have "us @ c # s = c # t" ..
    with assms(3) show ?thesis
      by (cases us) auto
  next
    assume "a @ us = b \<and> c # s = us @ c # t"
    then have "c # s = us @ c # t" ..
    with assms(2) show ?thesis
      by (cases us) auto
  qed
qed

lemma newIds_fresh:
  assumes "freshSuffixes w n"
  shows "distinct (newIds w n) \<and> set (newIds w n) \<inter> storedIds w = {}"
proof -
  let ?f = "\<lambda>i. ''photo-'' @ show_int (idClock w i) @ ''-'' @ randomSuffixes w i"
  from assms have d: "distinct (map (randomSuffixes w) [0 ..< n])"
    and h: "\<And>i. i < n \<Longrightarrow> CHR ''-'' \<notin> set (randomSuffixes w i)"
    and e: "\<And>i e. i < n \<Longrightarrow> e \<in> storedIds w \<Longrightarrow> \<not> endsWith e (''-'' @ randomSuffixes w i)"
    by (auto simp: freshSuffixes_def)
  from d have inj: "inj_on (randomSuffixes w) {0 ..< n}"
    by (simp add: distinct_map)
  have "inj_on ?f {0 ..< n}"
  proof (rule inj_onI)
    fix i j assume i: "i \<in> {0 ..< n}" and j: "j \<in> {0 ..< n}" and eq: "?f i = ?f j"
    from eq have "(''photo-'' @ show_int (idClock w i)) @ CHR ''-'' # randomSuffixes w i
        = (''photo-'' @ show_int (idClock w j)) @ CHR ''-'' # randomSuffixes w j"
      by simp
    moreover from i j have "CHR ''-'' \<notin> set (randomSuffixes w i)" "CHR ''-'' \<notin> set (randomSuffixes w j)"
      by (simp_all add: h)
    ultimately have "randomSuffixes w i = randomSuffixes w j"
      by (rule same_tail)
    with inj i j show "i = j"
      by (auto dest: inj_onD)
  qed
  then have 1: "distinct (newIds w n)"
    by (simp add: newIds_def distinct_map)
  have 2: "set (newIds w n) \<inter> storedIds w = {}"
  proof (rule ccontr)
    assume "set (newIds w n) \<inter> storedIds w \<noteq> {}"
    then obtain i where i: "i < n" and m: "?f i \<in> storedIds w"
      by (auto simp: newIds_def)
    have "endsWith ((''photo-'' @ show_int (idClock w i)) @ (''-'' @ randomSuffixes w i))
        (''-'' @ randomSuffixes w i)"
      by (rule endsWith_append)
    with e [OF i m] show False by simp
  qed
  from 1 2 show ?thesis ..
qed

subsection \<open>A well-formed store stays well-formed\<close>

text \<open>The empty store is well-formed, and the operations of \<^verbatim>\<open>photoService.ts\<close>
  keep a store well-formed, whatever the database answers.\<close>

lemma validRefs_updatePhotoSplatStatus:
  "validRefs w \<Longrightarrow> validRefs (snd (updatePhotoSplatStatus pid st u w))"
proof (cases "findPhoto pid w")
  case None
  assume "validRefs w"
  with None show ?thesis by (simp add: updatePhotoSplatStatus_unknown)
next
  case (Some r)
  assume "validRefs w"
  with updatePhotoSplatStatus_heap [OF Some, of st u] show ?thesis
    by (simp add: validRefs_def)
qed

lemma loadPhotosFromDB_refs:
  assumes "loadPhotosFromDB aid w = (res, w')"
  shows "photos w' = photos w \<and> length (heap w) \<le> length (heap w')
       \<and> (\<forall>rs. res = Inr rs \<longrightarrow> (\<forall>r \<in> set rs. r < length (heap w')))"
proof (cases "snd (dbReplies w 0)")
  case True
  with assms show ?thesis
    by (auto simp: loadPhotosFromDB_def dbRequest_def)
next
  case False
  from loadPhotosFromDB_spec [OF False assms] show ?thesis
    by auto
qed

lemma validRefs_switchAlbum:
  assumes "validRefs w"
  shows "validRefs (snd (switchAlbum aid w))"
proof -
  let ?w0 = "w\<lparr>currentAlbumId := Some aid\<rparr>"
  obtain res w1 where l: "loadPhotosFromDB (Some aid) ?w0 = (res, w1)"
    by (cases "loadPhotosFromDB (Some aid) ?w0")
  note r = loadPhotosFromDB_refs [OF l]
  show ?thesis
  proof (cases res)
    case (Inl e)
    with l have "snd (switchAlbum aid w) = w1" by (simp add: switchAlbum_def)
    with assms r show ?thesis by (simp add: validRefs_def) (metis order_less_le_trans)
  next
    case (Inr rs)
    with l have "snd (switchAlbum aid w) = notifyPhotosChanged (w1\<lparr>photos := rs\<rparr>)"
      by (simp add: switchAlbum_def)
    with r Inr show ?thesis by (simp add: validRefs_def notifyPhotosChanged_def)
  qed
qed

lemma validRefs_initPhotoService:
  assumes "validRefs w"
  shows "validRefs (snd (initPhotoService w))"
proof -
  obtain r1 w1 where a: "loadAlbumsFromDB w = (r1, w1)"
    by (cases "loadAlbumsFromDB w")
  then have w1: "heap w1 = heap w" "photos w1 = photos w"
    by (auto simp: loadAlbumsFromDB_def dbRequest_def split: bool.splits)
  show ?thesis
  proof (cases r1)
    case (Inl e)
    with a w1 assms show ?thesis by (simp add: initPhotoService_def validRefs_def)
  next
    case (Inr stored)
    obtain r2 w2 where b: "ensureDefaultAlbum (w1\<lparr>albums := stored\<rparr>) = (r2, w2)"
      by (cases "ensureDefaultAlbum (w1\<lparr>albums := stored\<rparr>)")
    then have w2: "heap w2 = heap w" "photos w2 = photos w"
      using w1 by (auto simp: ensureDefaultAlbum_def saveAlbumToDB_def dbRequest_def split: bool.splits if_splits)
    show ?thesis
    proof (cases r2)
      case (Some e)
      with a Inr b w2 assms show ?thesis by (simp add: initPhotoService_def validRefs_def)
    next
      case None
      show ?thesis
      proof (cases "albums w2")
        case Nil
        with a Inr b None w2 assms show ?thesis by (simp add: initPhotoService_def validRefs_def)
      next
        case (Cons first others)
        let ?w3 = "w2\<lparr>currentAlbumId := Some (album_id first)\<rparr>"
        obtain r4 w4 where l: "loadPhotosFromDB (Some (album_id first)) ?w3 = (r4, w4)"
          by (cases "loadPhotosFromDB (Some (album_id first)) ?w3")
        note r = loadPhotosFromDB_refs [OF l]
        show ?thesis
        proof (cases r4)
          case (Inl e)
          with a Inr b None Cons l have "snd (initPhotoService w) = w4"
            by (simp add: initPhotoService_def)
          with assms r w2 show ?thesis
            by (simp add: validRefs_def) (metis order_less_le_trans)
        next
          case (Inr rs)
          with a \<open>r1 = Inr stored\<close> b None Cons l have "snd (initPhotoService w) = w4\<lparr>photos := rs\<rparr>"
            by (simp add: initPhotoService_def)
          with r Inr show ?thesis by (simp add: validRefs_def)
        qed
      qed
    qed
  qed
qed

lemma validRefs_addLoop:
  "validRefs w \<Longrightarrow> validRefs (snd (addLoop files target acc w))"
proof (induction files arbitrary: acc w)
  case Nil
  then show ?case by simp
next
  case (Cons f fs)
  show ?case
  proof (cases "isImage f")
    case False
    with Cons show ?thesis by simp
  next
    case True
    let ?w0 = "(tick w)\<lparr>randomSuffixes := (\<lambda>n. randomSuffixes w (Suc n)),
                   objectUrls := (\<lambda>n. objectUrls w (Suc n)),
                   heap := heap w @ [newPhoto f target w],
                   photos := photos w @ [length (heap w)]\<rparr>"
    obtain r1 w1 where s: "savePhotoToDB (newPhoto f target w) ?w0 = (r1, w1)"
      by (cases "savePhotoToDB (newPhoto f target w) ?w0")
    then have "heap w1 = heap ?w0" "photos w1 = photos ?w0"
      by (auto simp: savePhotoToDB_def dbRequest_def split: bool.splits)
    with Cons.prems have v: "validRefs w1"
      by (auto simp: validRefs_def less_Suc_eq)
    show ?thesis
    proof (cases r1)
      case None
      with True s have "addLoop (f # fs) target acc w = addLoop fs target (acc @ [length (heap w)]) w1"
        by simp
      with Cons.IH [OF v] show ?thesis by simp
    next
      case (Some e)
      with True s v show ?thesis by simp
    qed
  qed
qed

lemma validRefs_addPhotosFromFiles:
  assumes "validRefs w"
  shows "validRefs (snd (addPhotosFromFiles files aid w))"
proof -
  let ?t = "orElse aid (orElse (currentAlbumId w) ''default'')"
  obtain r1 w1 where a: "addLoop files ?t [] w = (r1, w1)"
    by (cases "addLoop files ?t [] w")
  with validRefs_addLoop [OF assms, of files ?t "[]"] have v1: "validRefs w1" by simp
  show ?thesis
  proof (cases r1)
    case (Inl e)
    with a v1 show ?thesis by (simp add: addPhotosFromFiles_def)
  next
    case (Inr new)
    obtain r2 w2 where u: "updateAlbumCount ?t new w1 = (r2, w2)"
      by (cases "updateAlbumCount ?t new w1")
    then have "heap w2 = heap w1" "photos w2 = photos w1"
      by (auto simp: updateAlbumCount_def saveAlbumToDB_def dbRequest_def split: option.splits bool.splits)
    with v1 have "validRefs w2" "validRefs (notifyPhotosChanged w2)"
      by (simp_all add: validRefs_def notifyPhotosChanged_def)
    with a Inr u show ?thesis
      by (cases r2) (simp_all add: addPhotosFromFiles_def)
  qed
qed

subsection \<open>The poll loop leaves the store alone\<close>

lemma sameStore_refl: "sameStore w w"
  by (simp add: sameStore_def)

lemma sameStore_trans: "sameStore w w1 \<Longrightarrow> sameStore w1 w2 \<Longrightarrow> sameStore w w2"
  by (simp add: sameStore_def)

lemma sameStore_pollAttempt: "sameStore w (snd (pollAttempt rid cb el n w))"
  by (simp add: sameStore_def poll_defs split: response.splits option.splits prod.splits)

lemma sameStore_sleep: "sameStore w (sleep ms w)"
  by (simp add: sameStore_def sleep_def)

lemma sameStore_tick: "sameStore w (tick w)"
  by (simp add: sameStore_def tick_def)

lemma sameStore_waitLoop: "sameStore w (snd (waitLoop rid T cb start a w))"
proof (induction rid T cb start a w rule: waitLoop_induct)
  case (timeout rid T cb start a w)
  then show ?case by (simp add: waitLoop_timeout sameStore_refl)
next
  case (return rid T cb start a w r w1)
  have "snd (pollAttempt rid cb (round_seconds (now (tick w) - start)) (a + 1) (tick w)) = w1"
    by (simp only: return(2) snd_conv)
  then have "sameStore (tick w) w1"
    using sameStore_pollAttempt [of "tick w" rid cb "round_seconds (now (tick w) - start)" "a + 1"]
    by simp
  with sameStore_tick [of w] have "sameStore w w1"
    by (rule sameStore_trans)
  then show ?case
    by (simp only: waitLoop_return [OF return(1,2)] snd_conv)
next
  case (continue rid T cb start a w w1)
  have "snd (pollAttempt rid cb (round_seconds (now (tick w) - start)) (a + 1) (tick w)) = w1"
    by (simp only: continue(2) snd_conv)
  then have "sameStore (tick w) w1"
    using sameStore_pollAttempt [of "tick w" rid cb "round_seconds (now (tick w) - start)" "a + 1"]
    by simp
  with sameStore_tick [of w] have 1: "sameStore w w1"
    by (rule sameStore_trans)
  have 2: "sameStore w1 (sleep (min 5000 (1000 + int (a + 1) * 200)) w1)"
    by (rule sameStore_sleep)
  from 1 2 continue(3)
  have "sameStore w (snd (waitLoop rid T cb start (a + 1) (sleep (min 5000 (1000 + int (a + 1) * 200)) w1)))"
    by (blast intro: sameStore_trans)
  then show ?case
    by (simp only: waitLoop_continue [OF continue(1,2)])
qed

lemma sameStore_submitBlob: "sameStore w (snd (submitBlob fname w))"
  by (simp add: sameStore_def submitBlob_def fetchSubmitFile_def split: response.splits prod.splits)

lemma sameStore_generateSplatFromBlob: "sameStore w (snd (generateSplatFromBlob b fname cb w))"
proof (cases "submitBlob fname w")
  case (Pair r w1)
  then have 1: "sameStore w w1"
    using sameStore_submitBlob [of w fname] by simp
  show ?thesis
  proof (cases r)
    case (Inl e)
    with Pair 1 show ?thesis by (simp add: generateSplatFromBlob_def)
  next
    case (Inr rid)
    have 2: "sameStore w1 (snd (waitForResult rid (Some (3 * 60 * 1000)) cb w1))"
      unfolding waitForResult_def
      using sameStore_tick [of w1] sameStore_waitLoop [of "tick w1"]
      by (rule sameStore_trans)
    from Pair Inr
    have "snd (generateSplatFromBlob b fname cb w) = snd (waitForResult rid (Some (3 * 60 * 1000)) cb w1)"
      by (simp add: generateSplatFromBlob_def)
    with 1 2 show ?thesis
      by (metis sameStore_trans)
  qed
qed

subsection \<open>generateSplatsForPhotos only advances\<close>

lemma forward_same:
  "validRefs w \<Longrightarrow> distinctIds w \<Longrightarrow> sameStore w w' \<Longrightarrow> forward w w'"
  by (simp add: forward_def sameStore_def validRefs_def distinctIds_def)

lemma forward_trans: "forward w w1 \<Longrightarrow> forward w1 w2 \<Longrightarrow> forward w w2"
  by (auto simp: forward_def)

lemma forward_inv: "forward w w' \<Longrightarrow> validRefs w' \<and> distinctIds w' \<and> photos w' = photos w"
  by (simp add: forward_def)

lemma find_distinct:
  "distinct (map f xs) \<Longrightarrow> r \<in> set xs \<Longrightarrow> find (\<lambda>q. f q = f r) xs = Some r"
  by (induction xs) auto

lemma findPhoto_own:
  "distinctIds w \<Longrightarrow> r \<in> set (photos w) \<Longrightarrow> findPhoto (photo_id (heap w ! r)) w = Some r"
  unfolding distinctIds_def findPhoto_def by (rule find_distinct)

lemma forward_update:
  assumes "validRefs w" and "distinctIds w" and "r \<in> set (photos w)"
    and "advance (splatStatus (heap w ! r)) st"
    and "updatePhotoSplatStatus (photo_id (heap w ! r)) st u w = (res, w')"
  shows "forward w w' \<and> splatStatus (heap w' ! r) = st"
proof -
  have f: "findPhoto (photo_id (heap w ! r)) w = Some r"
    using assms(2,3) by (rule findPhoto_own)
  have r: "r < length (heap w)"
    using assms(1,3) by (simp add: validRefs_def)
  from updatePhotoSplatStatus_heap [OF f, of st u] assms(5)
  have h: "heap w' = (heap w)[r := setSplat st u (heap w ! r)]" "photos w' = photos w"
    "splatHistory w' = splatHistory w @ [(photo_id (heap w ! r), splatStatus (heap w ! r), st)]"
    by simp_all
  have v: "validRefs w'"
    using assms(1) h by (simp add: validRefs_def)
  have d: "distinctIds w'"
    using assms(2) h by (simp add: distinctIds_def photo_id_heap_update)
  have s: "splatStatus (heap w' ! r) = st"
    using h(1) r by (simp add: setSplat_def)
  from v d h assms(4) s show ?thesis
    by (simp add: forward_def)
qed

lemma sameStore_canvasAddSplat: "sameStore w (snd (canvasAddSplat pid u w))"
  by (simp add: sameStore_def canvasAddSplat_def)

lemma publishSplat_spec:
  assumes "validRefs w" and "distinctIds w" and "r \<in> set (photos w)"
    and "splatStatus (heap w ! r) = Some Processing"
    and "publishSplat r result w = (res, w')"
  shows "forward w w' \<and> splatStatus (heap w' ! r) = Some Ready"
proof -
  obtain r1 w1 where u: "updatePhotoSplatStatus (photo_id (heap w ! r)) (Some Ready) (Some (plyUrl result)) w = (r1, w1)"
    by (cases "updatePhotoSplatStatus (photo_id (heap w ! r)) (Some Ready) (Some (plyUrl result)) w")
  have "advance (splatStatus (heap w ! r)) (Some Ready)"
    using assms(4) by simp
  from forward_update [OF assms(1-3) this u]
  have 1: "forward w w1" "splatStatus (heap w1 ! r) = Some Ready"
    by simp_all
  show ?thesis
  proof (cases r1)
    case (Some e)
    with assms(5) u have "w' = w1" by (simp add: publishSplat_def)
    with 1 show ?thesis by simp
  next
    case None
    let ?w2 = "w1\<lparr>trace := trace w1 @ [ConsoleLog (''[App] Splat ready: '' @ plyUrl result)]\<rparr>"
    obtain r3 w3 where c: "canvasAddSplat (photo_id (heap w1 ! r)) (plyUrl result) ?w2 = (r3, w3)"
      by (cases "canvasAddSplat (photo_id (heap w1 ! r)) (plyUrl result) ?w2")
    have "sameStore ?w2 w3"
      using sameStore_canvasAddSplat [of ?w2 "photo_id (heap w1 ! r)" "plyUrl result"] c by simp
    then have 3: "sameStore w1 w3"
      by (simp add: sameStore_def)
    have "sameStore w1 w'"
      using assms(5) u None c 3
      by (cases r3) (auto simp: publishSplat_def sameStore_def)
    then show ?thesis
      using 1 forward_inv [OF 1(1)] forward_same forward_trans
      by (metis sameStore_def)
  qed
qed

lemma tryConvert_spec:
  assumes "validRefs w" and "distinctIds w" and "r \<in> set (photos w)"
    and "splatStatus (heap w ! r) = Some Pending"
    and "tryConvert r w = (res, w')"
  shows "forward w w' \<and> (splatStatus (heap w' ! r) = Some Processing \<or> splatStatus (heap w' ! r) = Some Ready)"
proof -
  obtain r1 w1 where u: "updatePhotoSplatStatus (photo_id (heap w ! r)) (Some Processing) None w = (r1, w1)"
    by (cases "updatePhotoSplatStatus (photo_id (heap w ! r)) (Some Processing) None w")
  have "advance (splatStatus (heap w ! r)) (Some Processing)"
    using assms(4) by simp
  from forward_update [OF assms(1-3) this u]
  have 1: "forward w w1" "splatStatus (heap w1 ! r) = Some Processing"
    by simp_all
  note i1 = forward_inv [OF 1(1)]
  show ?thesis
  proof (cases r1)
    case (Some e)
    with assms(5) u have "w' = w1" by (simp add: tryConvert_def)
    with 1 show ?thesis by simp
  next
    case None
    let ?w2 = "showStatus (''Converting '' @ [CHR 0x22] @ photo_name (heap w1 ! r) @ [CHR 0x22] @ '' to 3D...'') True w1"
    obtain g w3 where gen: "generateSplatFromBlob (blob (heap w1 ! r)) (photo_name (heap w1 ! r)) statusBarCallback ?w2 = (g, w3)"
      by (cases "generateSplatFromBlob (blob (heap w1 ! r)) (photo_name (heap w1 ! r)) statusBarCallback ?w2")
    have "sameStore ?w2 w3"
      using sameStore_generateSplatFromBlob [of ?w2 "blob (heap w1 ! r)" "photo_name (heap w1 ! r)" statusBarCallback] gen
      by simp
    then have s3: "sameStore w1 w3"
      by (simp add: sameStore_def showStatus_def)
    then have f3: "forward w w3"
      using 1(1) i1 forward_same forward_trans by blast
    have st3: "splatStatus (heap w3 ! r) = Some Processing"
      using s3 1(2) by (simp add: sameStore_def)
    show ?thesis
    proof (cases g)
      case (Inl e)
      with assms(5) u None gen have "w' = w3" by (simp add: tryConvert_def)
      with f3 st3 show ?thesis by simp
    next
      case (Inr result)
      with assms(5) u None gen have p: "publishSplat r result w3 = (res, w')"
        by (simp add: tryConvert_def)
      note i3 = forward_inv [OF f3]
      have "r \<in> set (photos w3)" using i3 assms(3) by simp
      from publishSplat_spec [OF _ _ this st3 p] i3
      have "forward w3 w'" "splatStatus (heap w' ! r) = Some Ready"
        by simp_all
      with f3 show ?thesis
        using forward_trans by blast
    qed
  qed
qed

lemma convertPhoto_spec:
  assumes "validRefs w" and "distinctIds w" and "r \<in> set (photos w)"
    and "convertPhoto r w = (res, w')"
  shows "forward w w'"
proof (cases "splatStatus (heap w ! r) = Some Pending")
  case False
  with assms(4) have "w' = w" by (simp add: convertPhoto_def)
  then show ?thesis
    using assms(1,2) forward_same sameStore_refl by blast
next
  case True
  obtain r1 w1 where t: "tryConvert r w = (r1, w1)"
    by (cases "tryConvert r w")
  from tryConvert_spec [OF assms(1-3) True t]
  have 1: "forward w w1"
    and st: "splatStatus (heap w1 ! r) = Some Processing \<or> splatStatus (heap w1 ! r) = Some Ready"
    by simp_all
  show ?thesis
  proof (cases r1)
    case None
    with assms(4) True t have "w' = w1" by (simp add: convertPhoto_def)
    with 1 show ?thesis by simp
  next
    case (Some err)
    let ?w2 = "w1\<lparr>trace := trace w1 @
                 [ConsoleError (''[App] Splat generation failed for '' @ photo_name (heap w1 ! r) @ '':'')]\<rparr>"
    have u: "updatePhotoSplatStatus (photo_id (heap ?w2 ! r)) (Some Failed) None ?w2 = (res, w')"
      using assms(4) True t Some by (simp add: convertPhoto_def)
    note i1 = forward_inv [OF 1]
    have s2: "sameStore w1 ?w2" by (simp add: sameStore_def)
    have f2: "forward w1 ?w2"
      using i1 s2 forward_same by blast
    note i2 = forward_inv [OF f2]
    have r2: "r \<in> set (photos ?w2)" using i1 assms(3) by simp
    have a: "advance (splatStatus (heap ?w2 ! r)) (Some Failed)"
      using st by auto
    from forward_update [OF _ _ r2 a u] i2
    have "forward ?w2 w'" by simp
    with 1 f2 show ?thesis
      using forward_trans by blast
  qed
qed

lemma convertAll_spec:
  assumes "validRefs w" and "distinctIds w" and "set rs \<subseteq> set (photos w)"
    and "convertAll rs w = (res, w')"
  shows "forward w w'"
  using assms
proof (induction rs arbitrary: w res w')
  case Nil
  then show ?case
    using forward_same sameStore_refl by auto
next
  case (Cons r rs)
  obtain r1 w1 where c: "convertPhoto r w = (r1, w1)"
    by (cases "convertPhoto r w")
  from Cons.prems(3) have "r \<in> set (photos w)" by simp
  from convertPhoto_spec [OF Cons.prems(1,2) this c] have 1: "forward w w1" .
  note i1 = forward_inv [OF 1]
  show ?case
  proof (cases r1)
    case (Some e)
    with Cons.prems(4) c have "w' = w1" by simp
    with 1 show ?thesis by simp
  next
    case None
    with Cons.prems(4) c have "convertAll rs w1 = (res, w')" by simp
    moreover have "set rs \<subseteq> set (photos w1)" using Cons.prems(3) i1 by simp
    ultimately have "forward w1 w'"
      using Cons.IH i1 by blast
    with 1 show ?thesis
      using forward_trans by blast
  qed
qed

chapter \<open>The claims\<close>

section \<open>The poll loop: claims\<close>

text \<open>
  C1. The claim: when a status query returns \<^verbatim>\<open>failed\<close>, the job is removed from the
  tracker, the call fails with the backend's message (or a generic one), and no result
  fetch is issued. The code deletes the entry and throws that error at lines 153-156, but
  the \<^verbatim>\<open>throw\<close> stands inside the \<^verbatim>\<open>try\<close> whose \<^verbatim>\<open>catch\<close> (line 158) swallows
  everything. Run on a backend that answers \<^verbatim>\<open>failed\<close> with the message
  \<open>out of memory\<close>, with a budget of 4000 ms: the entry is deleted at the first attempt,
  the loop logs a warning and keeps polling the deleted job, and the call ends with
  \<open>sharp_timeout\<close>, not with the backend's message.
\<close>

theorem failed_status_swallowed:
  "fst (waitForResult ''job1'' (Some 4000) None failedWorld) = Inl (Error ''sharp_timeout'')
   \<and> trace (snd (waitForResult ''job1'' (Some 4000) None failedWorld)) =
       [FetchStatus ''job1'', ConsoleWarn 1, SetTimeout 1200,
        FetchStatus ''job1'', ConsoleWarn 2, SetTimeout 1400,
        FetchStatus ''job1'', ConsoleWarn 3, SetTimeout 1600]
   \<and> activeGenerations (snd (waitForResult ''job1'' (Some 4000) None failedWorld)) = []"
  by (simp add: eval_defs world_defs)

text \<open>
  C2. The claim: on \<^verbatim>\<open>completed\<close> exactly one result fetch is issued; if it fails, the
  call fails hard and the fetch is not retried. The code throws
  \<open>Failed to get result\<close> at line 140, inside the same \<^verbatim>\<open>try\<close>, so the error is
  swallowed too. Run on a completed job whose first result fetch gets a 502: the loop
  sleeps, queries the status again and fetches the result a second time, and the call
  returns the result.
\<close>

theorem failed_result_fetch_retried:
  "fst (waitForResult ''job1'' None None flakyResultWorld)
     = Inr \<lparr>plyUrl = ''https://x/y.ply'', filename = ''y.ply'', sizeBytes = 12345\<rparr>
   \<and> trace (snd (waitForResult ''job1'' None None flakyResultWorld)) =
       [FetchStatus ''job1'', FetchResult ''job1'', ConsoleWarn 1, SetTimeout 1200,
        FetchStatus ''job1'', FetchResult ''job1'']
   \<and> resultFetches (trace (snd (waitForResult ''job1'' None None flakyResultWorld))) = 2"
  by (simp add: eval_defs world_defs)




text \<open>
  C4. Whatever the network, the callback and the timers do, the status queries and the
  timers of a call alternate: the n-th status query is followed by a timer of
  min(5000, 1000 + 200 n) ms, for n = 1, 2, ..., k, where k is the number of status queries
  of the call that did not end it; a call that returns a result ends with one more status
  query. Nothing else enters the delay, so there is no jitter. A call whose budget is more
  than the time between the readings of the clock at lines 111 and 115 makes at least one
  status query, and a call that fails has spent its budget. In a
  call with five rounds or more the first five timers are 1200, 1400, 1600, 1800 and
  2000 ms.
\<close>

theorem backoff_schedule:
  assumes "waitForResult rid T cb w = (res, w')"
  shows "pollSchedule (trace w') =
           pollSchedule (trace w)
           @ concat (map (\<lambda>n. [FetchStatus rid, SetTimeout (min 5000 (1000 + int n * 200))])
               [1 ..< Suc (statusQueries (trace w') - statusQueries (trace w)
                           - (case res of Inl e \<Rightarrow> 0 | Inr r \<Rightarrow> 1))])
           @ (case res of Inl e \<Rightarrow> [] | Inr r \<Rightarrow> [FetchStatus rid])
       \<and> (int (clockTicks w 0) < (case T of None \<Rightarrow> 180000 | Some t \<Rightarrow> t) \<longrightarrow>
            statusQueries (trace w) < statusQueries (trace w'))
       \<and> (\<forall>e. res = Inl e \<longrightarrow> (case T of None \<Rightarrow> 180000 | Some t \<Rightarrow> t) \<le> now w' - now w)
       \<and> (5 \<le> statusQueries (trace w') - statusQueries (trace w) - (case res of Inl e \<Rightarrow> 0 | Inr r \<Rightarrow> 1) \<longrightarrow>
            take 10 (drop (length (pollSchedule (trace w))) (pollSchedule (trace w'))) =
              [FetchStatus rid, SetTimeout 1200, FetchStatus rid, SetTimeout 1400,
               FetchStatus rid, SetTimeout 1600, FetchStatus rid, SetTimeout 1800,
               FetchStatus rid, SetTimeout 2000])"
proof -
  let ?T = "case T of None \<Rightarrow> 3 * 60 * 1000 | Some t \<Rightarrow> t"
  let ?f = "\<lambda>n. [FetchStatus rid, SetTimeout (min 5000 (1000 + int n * 200))]"
  let ?k = "statusQueries (trace w') - statusQueries (trace w) - (case res of Inl e \<Rightarrow> 0 | Inr r \<Rightarrow> 1)"
  let ?last = "case res of Inl e \<Rightarrow> [] | Inr r \<Rightarrow> [FetchStatus rid]"
  have T: "(case T of None \<Rightarrow> 180000 | Some t \<Rightarrow> t) = ?T"
    by (simp split: option.splits)
  have run: "waitLoop rid ?T cb (now w) 0 (tick w) = (res, w')"
    using assms by (simp add: waitForResult_def)
  have 1: "pollSchedule (trace w') = pollSchedule (trace w) @ concat (map ?f [1 ..< Suc ?k]) @ ?last"
    using waitLoop_rounds [of rid ?T cb "now w" 0 "tick w"] unfolding run by simp
  have 2: "int (clockTicks w 0) < ?T \<longrightarrow> statusQueries (trace w) < statusQueries (trace w')"
  proof
    assume "int (clockTicks w 0) < ?T"
    then have "statusQueries (trace (tick w)) < statusQueries (trace (snd (waitLoop rid ?T cb (now w) 0 (tick w))))"
      by (intro waitLoop_first_query) simp
    then show "statusQueries (trace w) < statusQueries (trace w')"
      unfolding run by simp
  qed
  have 3: "\<forall>e. res = Inl e \<longrightarrow> ?T \<le> now w' - now w"
    using waitLoop_budget_spent [of rid ?T cb "now w" 0 "tick w"] unfolding run by simp
  have 4: "5 \<le> ?k \<longrightarrow>
            take 10 (drop (length (pollSchedule (trace w))) (pollSchedule (trace w'))) =
              [FetchStatus rid, SetTimeout 1200, FetchStatus rid, SetTimeout 1400,
               FetchStatus rid, SetTimeout 1600, FetchStatus rid, SetTimeout 1800,
               FetchStatus rid, SetTimeout 2000]"
  proof
    define k where "k = ?k"
    assume "5 \<le> ?k"
    then have "5 \<le> k"
      by (simp add: k_def)
    from 1 have "drop (length (pollSchedule (trace w))) (pollSchedule (trace w')) =
        concat (map ?f [Suc 0 ..< Suc k]) @ ?last"
      by (simp add: k_def)
    then show "take 10 (drop (length (pollSchedule (trace w))) (pollSchedule (trace w'))) =
              [FetchStatus rid, SetTimeout 1200, FetchStatus rid, SetTimeout 1400,
               FetchStatus rid, SetTimeout 1600, FetchStatus rid, SetTimeout 1800,
               FetchStatus rid, SetTimeout 2000]"
      using five_rounds [OF \<open>5 \<le> k\<close>, of "FetchStatus rid"
          "\<lambda>n. SetTimeout (min 5000 (1000 + int n * 200))" ?last]
      by simp
  qed
  from 1 2 3 4 show ?thesis
    unfolding T by blast
qed

theorem backoff_schedule_witness:
  "fst (waitForResult ''job1'' (Some 8000) None pendingWorld) = Inl (Error ''sharp_timeout'')
   \<and> pollSchedule (trace (snd (waitForResult ''job1'' (Some 8000) None pendingWorld))) =
       [FetchStatus ''job1'', SetTimeout 1200, FetchStatus ''job1'', SetTimeout 1400,
        FetchStatus ''job1'', SetTimeout 1600, FetchStatus ''job1'', SetTimeout 1800,
        FetchStatus ''job1'', SetTimeout 2000]
   \<and> 8000 \<le> now (snd (waitForResult ''job1'' (Some 8000) None pendingWorld)) - 1000"
proof -
  let ?w' = "snd (waitForResult ''job1'' (Some 8000) None pendingWorld)"
  have run: "waitForResult ''job1'' (Some 8000) None pendingWorld =
      (fst (waitForResult ''job1'' (Some 8000) None pendingWorld), ?w')"
    by simp
  have facts: "fst (waitForResult ''job1'' (Some 8000) None pendingWorld) = Inl (Error ''sharp_timeout'')"
    "statusQueries (trace ?w') = 5" "statusQueries (trace pendingWorld) = 0"
    "pollSchedule (trace pendingWorld) = []" "now pendingWorld = 1000" "clockTicks pendingWorld 0 = 0"
    by (simp_all add: eval_defs world_defs pollSchedule_def)
  have five: "[Suc 0 ..< 6] = [1, 2, 3, 4, 5]"
    by (simp add: upt_conv_Cons)
  from backoff_schedule [OF run] show ?thesis
    unfolding facts by (simp add: five)
qed

text \<open>
  C9. The claim: an exception thrown by the progress callback propagates to the caller of
  \<open>waitForResult\<close>. It does not: the callback is called at line 130, inside the
  \<^verbatim>\<open>try\<close> block. With a callback that always throws, a job that is pending at the
  first query and completed at the second: the callback is called once and throws, the
  loop logs a warning, sleeps and polls again, and the call returns the result.
\<close>

theorem callback_exception_counterexample:
  "fst (waitForResult ''job1'' None throwingCallback pendingThenCompleted)
     = Inr \<lparr>plyUrl = ''https://x/y.ply'', filename = ''y.ply'', sizeBytes = 12345\<rparr>
   \<and> trace (snd (waitForResult ''job1'' None throwingCallback pendingThenCompleted)) =
       [FetchStatus ''job1'', OnProgress ''Generating splat... (0s)'', ConsoleWarn 1, SetTimeout 1200,
        FetchStatus ''job1'', FetchResult ''job1'']"
  by (simp add: eval_defs world_defs)

text \<open>
  C9, as amended. If the progress callback throws when it is called on a pending or
  processing status, the \<^verbatim>\<open>catch\<close> of the poll loop absorbs the exception as it
  absorbs a failed query: the attempt ends without a result, a warning is logged, the
  tracker is untouched, and the loop goes on to the backoff. With any callback, the only
  error \<open>waitForResult\<close> fails with is \<open>sharp_timeout\<close>.
\<close>

theorem callback_exception_absorbed:
  assumes "snd (statusReplies w 0) = HttpOk st"
    and "status st = ''pending'' \<or> status st = ''processing''"
    and "cb (progressMessage elapsed) = Some e"
  shows "pollAttempt rid (Some cb) elapsed attempt w =
           (None, w\<lparr>now := now w + int (fst (statusReplies w 0)),
                    trace := trace w @ [FetchStatus rid, OnProgress (progressMessage elapsed),
                                        ConsoleWarn attempt],
                    statusReplies := (\<lambda>n. statusReplies w (Suc n))\<rparr>)
       \<and> (\<forall>e'. fst (waitForResult rid T (Some cb) w) = Inl e' \<longrightarrow> e' = Error ''sharp_timeout'')"
proof -
  have "\<forall>e'. fst (waitForResult rid T (Some cb) w) = Inl e' \<longrightarrow> e' = Error ''sharp_timeout''"
    unfolding waitForResult_def by (metis prod.collapse waitLoop_failure)
  with assms show ?thesis
    by (simp add: poll_defs)
qed

theorem callback_exception_absorbed_witness:
  "fst (pollAttempt ''job1'' throwingCallback 0 1 pendingThenCompleted) = None
   \<and> trace (snd (pollAttempt ''job1'' throwingCallback 0 1 pendingThenCompleted)) =
       [FetchStatus ''job1'', OnProgress ''Generating splat... (0s)'', ConsoleWarn 1]
   \<and> activeGenerations (snd (pollAttempt ''job1'' throwingCallback 0 1 pendingThenCompleted)) =
       [(''job1'', job1)]"
proof -
  have 1: "snd (statusReplies pendingThenCompleted 0) = HttpOk \<lparr>status = ''pending'', error = None\<rparr>"
    by (simp add: world_defs)
  have 2: "status \<lparr>status = ''pending'', error = None\<rparr> = ''pending''
         \<or> status \<lparr>status = ''pending'', error = None\<rparr> = ''processing''"
    by simp
  have 3: "(\<lambda>msg. Some (Thrown ''status bar is gone'')) (progressMessage 0) = Some (Thrown ''status bar is gone'')"
    by simp
  from callback_exception_absorbed [OF 1 2 3, where rid = "''job1''" and attempt = 1 and T = None]
  show ?thesis
    by (simp add: world_defs progressMessage_def show_int_def show_nat.simps digit_char_def)
qed

section \<open>The photo store: claims\<close>

text \<open>
  C7. When the albums store of IndexedDB is empty and the three requests of
  \<open>initPhotoService\<close> succeed (load the albums, save the default album, load the photos),
  the call returns normally; memory and IndexedDB then hold exactly one album, the default
  one, named \<open>All Memories\<close>, with \<open>photoCount\<close> 0; it is the current album; and the
  photos in memory are exactly the stored photos whose \<open>albumId\<close> is \<open>default\<close>.
\<close>

theorem initPhotoService_empty_store:
  assumes "albumsStore w = []"
    and "\<not> snd (dbReplies w 0)" and "\<not> snd (dbReplies w 1)" and "\<not> snd (dbReplies w 2)"
  shows "fst (initPhotoService w) =
           Inr (photos (snd (initPhotoService w)),
                [\<lparr>album_id = ''default'', album_name = ''All Memories'', photoCount = 0,
                  coverUrl = None, createdAt = now w + int (fst (dbReplies w 0))\<rparr>])
       \<and> albums (snd (initPhotoService w)) =
           [\<lparr>album_id = ''default'', album_name = ''All Memories'', photoCount = 0,
             coverUrl = None, createdAt = now w + int (fst (dbReplies w 0))\<rparr>]
       \<and> albumsStore (snd (initPhotoService w)) =
           [(''default'',
             \<lparr>album_id = ''default'', album_name = ''All Memories'', photoCount = 0,
              coverUrl = None, createdAt = now w + int (fst (dbReplies w 0))\<rparr>)]
       \<and> currentAlbumId (snd (initPhotoService w)) = Some ''default''
       \<and> map photoDataOf (getPhotos (snd (initPhotoService w))) =
           filter (\<lambda>d. albumId d = ''default'') (map snd (photosStore w))"
proof -
  let ?d = "\<lparr>album_id = ''default'', album_name = ''All Memories'', photoCount = 0,
             coverUrl = None, createdAt = now w + int (fst (dbReplies w 0))\<rparr>"
  have ok: "\<not> snd (dbReplies w (Suc 0))" "\<not> snd (dbReplies w (Suc (Suc 0)))"
    using assms(3,4) by (simp_all add: numeral_2_eq_2)
  define w1 where "w1 = snd (loadAlbumsFromDB w)"
  define w2 where "w2 = snd (ensureDefaultAlbum (w1\<lparr>albums := []\<rparr>))"
  have la: "loadAlbumsFromDB w = (Inr [], w1)"
    using assms(1,2) unfolding w1_def by (simp add: loadAlbumsFromDB_def dbRequest_def)
  have ed: "ensureDefaultAlbum (w1\<lparr>albums := []\<rparr>) = (None, w2)"
    using assms(2) ok(1) unfolding w2_def w1_def
    by (simp add: loadAlbumsFromDB_def dbRequest_def ensureDefaultAlbum_def saveAlbumToDB_def)
  have w2: "albums w2 = [?d]" "albumsStore w2 = [(''default'', ?d)]" "photosStore w2 = photosStore w"
    "heap w2 = heap w" "\<not> snd (dbReplies w2 0)"
    using assms(1,2) ok unfolding w2_def w1_def
    by (simp_all add: loadAlbumsFromDB_def dbRequest_def ensureDefaultAlbum_def saveAlbumToDB_def)
  obtain res w3 where lp: "loadPhotosFromDB (Some ''default'') (w2\<lparr>currentAlbumId := Some ''default''\<rparr>) = (res, w3)"
    by (cases "loadPhotosFromDB (Some ''default'') (w2\<lparr>currentAlbumId := Some ''default''\<rparr>)")
  have spec: "res = Inr [length (heap w) ..< length (heap w3)]"
    "length (heap w) \<le> length (heap w3)"
    "map photoDataOf (drop (length (heap w)) (heap w3)) =
       filter (\<lambda>d. albumId d = ''default'') (map snd (photosStore w))"
    "albums w3 = [?d]" "albumsStore w3 = [(''default'', ?d)]" "currentAlbumId w3 = Some ''default''"
    using loadPhotosFromDB_spec [OF _ lp] w2 by (simp_all add: truthy_def)
  have init: "initPhotoService w =
      (Inr ([length (heap w) ..< length (heap w3)], [?d]),
       w3\<lparr>photos := [length (heap w) ..< length (heap w3)]\<rparr>)"
    using spec(1,4) by (simp add: initPhotoService_def la ed w2(1) lp)
  have "map ((!) (heap w3)) [length (heap w) ..< length (heap w3)] = drop (length (heap w)) (heap w3)"
    using spec(2) map_nth_upt_drop [of "heap w3" "length (heap w)" "length (heap w3) - length (heap w)"]
    by simp
  with init spec show ?thesis
    by (simp add: getPhotos_def)
qed


theorem initPhotoService_empty_store_witness:
  "albums (snd (initPhotoService photosWithoutAlbums)) =
     [\<lparr>album_id = ''default'', album_name = ''All Memories'', photoCount = 0, coverUrl = None,
       createdAt = 1001\<rparr>]
   \<and> albumsStore (snd (initPhotoService photosWithoutAlbums)) =
     [(''default'',
       \<lparr>album_id = ''default'', album_name = ''All Memories'', photoCount = 0, coverUrl = None,
        createdAt = 1001\<rparr>)]
   \<and> currentAlbumId (snd (initPhotoService photosWithoutAlbums)) = Some ''default''
   \<and> map photoDataOf (getPhotos (snd (initPhotoService photosWithoutAlbums))) = [catData]"
proof -
  have "albumsStore photosWithoutAlbums = []"
    and "\<not> snd (dbReplies photosWithoutAlbums 0)"
    and "\<not> snd (dbReplies photosWithoutAlbums 1)"
    and "\<not> snd (dbReplies photosWithoutAlbums 2)"
    by (simp_all add: store_examples)
  from initPhotoService_empty_store [OF this] show ?thesis
    by (simp add: store_examples)
qed

text \<open>
  C8. The claim: \<open>updatePhotoSplatStatus(id, 'ready', url)\<close> sets the photo's splatUrl to
  \<open>url\<close>. Line 283 assigns the URL only when the argument is truthy, so with the empty
  string as URL the photo becomes ready and its splatUrl stays absent.
\<close>

theorem empty_url_counterexample:
  "map splatStatus (getPhotos (snd (updatePhotoSplatStatus ''photo-1000-abc'' (Some Ready) (Some []) onePhoto)))
     = [Some Ready]
   \<and> map splatUrl (getPhotos (snd (updatePhotoSplatStatus ''photo-1000-abc'' (Some Ready) (Some []) onePhoto)))
     = [None]"
  by (simp add: store_eval store_examples)

text \<open>
  C8, as amended. In a well-formed store, \<open>updatePhotoSplatStatus(id, 'ready', url)\<close> with
  a non-empty \<open>url\<close> sets the first photo with that id to ready with splatUrl \<open>url\<close>;
  \<open>getPhotos\<close> then shows this photo so and every other photo as before, whether or not
  the photo could be saved. With an id that no photo has, the call returns normally and the
  world is what it was: nothing is mutated, nothing is saved, no callback is called.
\<close>

theorem updatePhotoSplatStatus_ready:
  assumes "validRefs w" and "u \<noteq> []"
  shows "(case findPhoto pid w of
            None \<Rightarrow> updatePhotoSplatStatus pid (Some Ready) (Some u) w = (None, w)
          | Some r \<Rightarrow>
              getPhotos (snd (updatePhotoSplatStatus pid (Some Ready) (Some u) w)) =
                map (\<lambda>q. if q = r then (heap w ! r)\<lparr>splatStatus := Some Ready, splatUrl := Some u\<rparr>
                          else heap w ! q) (photos w)
            \<and> getPhotoById pid (snd (updatePhotoSplatStatus pid (Some Ready) (Some u) w)) =
                Some ((heap w ! r)\<lparr>splatStatus := Some Ready, splatUrl := Some u\<rparr>))"
proof (cases "findPhoto pid w")
  case None
  then show ?thesis by (simp add: updatePhotoSplatStatus_unknown)
next
  case (Some r)
  have s: "setSplat (Some Ready) (Some u) (heap w ! r) = (heap w ! r)\<lparr>splatStatus := Some Ready, splatUrl := Some u\<rparr>"
    using assms(2) by (simp add: setSplat_def truthy_def)
  from assms(1) Some have "r < length (heap w)"
    using findPhoto_Some validRefs_def by blast
  then have "getPhotoById pid (snd (updatePhotoSplatStatus pid (Some Ready) (Some u) w)) =
      Some ((heap w ! r)\<lparr>splatStatus := Some Ready, splatUrl := Some u\<rparr>)"
    using findPhoto_update [OF Some, of pid "Some Ready" "Some u"] Some
      updatePhotoSplatStatus_heap [OF Some, of "Some Ready" "Some u"] s
    by (simp add: getPhotoById_def)
  with Some s show ?thesis
    using getPhotos_update [OF assms(1) Some, of "Some Ready" "Some u"] by simp
qed


theorem updatePhotoSplatStatus_ready_witness:
  "getPhotos (snd (updatePhotoSplatStatus ''photo-1000-abc'' (Some Ready) (Some ''https://x/y.ply'') onePhoto))
     = [catPhoto\<lparr>splatStatus := Some Ready, splatUrl := Some ''https://x/y.ply''\<rparr>]
   \<and> getPhotoById ''photo-1000-abc''
        (snd (updatePhotoSplatStatus ''photo-1000-abc'' (Some Ready) (Some ''https://x/y.ply'') onePhoto))
     = Some (catPhoto\<lparr>splatStatus := Some Ready, splatUrl := Some ''https://x/y.ply''\<rparr>)
   \<and> updatePhotoSplatStatus ''photo-9'' (Some Ready) (Some ''https://x/y.ply'') onePhoto = (None, onePhoto)"
proof -
  have v: "validRefs onePhoto"
    by (simp add: validRefs_def store_examples)
  have u: "''https://x/y.ply'' \<noteq> []"
    by simp
  have f: "findPhoto ''photo-1000-abc'' onePhoto = Some 0" "findPhoto ''photo-9'' onePhoto = None"
    by (simp_all add: findPhoto_def store_examples)
  from updatePhotoSplatStatus_ready [OF v u, of "''photo-1000-abc''"]
    updatePhotoSplatStatus_ready [OF v u, of "''photo-9''"] f
  show ?thesis
    by (simp add: onePhoto_def)
qed

text \<open>
  C10. In a well-formed store, a call of \<open>updatePhotoSplatStatus\<close> without a splatUrl
  argument, on an id that a photo has, changes the splatStatus of that photo and nothing
  else: its splatUrl is what it was, every other photo is as before, and, when the request
  succeeds, the record saved under the id is the photo with the new status and the old URL.
\<close>

theorem updatePhotoSplatStatus_keeps_url:
  assumes "validRefs w" and "findPhoto pid w = Some r"
  shows "getPhotos (snd (updatePhotoSplatStatus pid st None w)) =
           map (\<lambda>q. if q = r then (heap w ! r)\<lparr>splatStatus := st\<rparr> else heap w ! q) (photos w)
       \<and> splatUrl (heap (snd (updatePhotoSplatStatus pid st None w)) ! r) = splatUrl (heap w ! r)
       \<and> (\<not> snd (dbReplies w 0) \<longrightarrow>
            map_of (photosStore (snd (updatePhotoSplatStatus pid st None w))) pid =
              Some (photoDataOf ((heap w ! r)\<lparr>splatStatus := st\<rparr>)))"
proof -
  have s: "setSplat st None (heap w ! r) = (heap w ! r)\<lparr>splatStatus := st\<rparr>"
    by (simp add: setSplat_def truthy_def)
  from assms have r: "r < length (heap w)" and pid: "photo_id (heap w ! r) = pid"
    using findPhoto_Some validRefs_def by blast+
  have 1: "getPhotos (snd (updatePhotoSplatStatus pid st None w)) =
           map (\<lambda>q. if q = r then (heap w ! r)\<lparr>splatStatus := st\<rparr> else heap w ! q) (photos w)"
    using getPhotos_update [OF assms, of st None] s by simp
  have 2: "splatUrl (heap (snd (updatePhotoSplatStatus pid st None w)) ! r) = splatUrl (heap w ! r)"
    using updatePhotoSplatStatus_heap [OF assms(2), of st None] s r by simp
  have 3: "\<not> snd (dbReplies w 0) \<longrightarrow>
            map_of (photosStore (snd (updatePhotoSplatStatus pid st None w))) pid =
              Some (photoDataOf ((heap w ! r)\<lparr>splatStatus := st\<rparr>))"
    using assms(2) s pid by (simp add: store_defs map_of_dbPut_same)
  from 1 2 3 show ?thesis by blast
qed


theorem updatePhotoSplatStatus_keeps_url_witness:
  "getPhotos (snd (updatePhotoSplatStatus ''photo-1000-abc'' (Some Failed) None oneReadyPhoto))
     = [catPhoto\<lparr>splatStatus := Some Failed, splatUrl := Some ''https://x/y.ply''\<rparr>]
   \<and> map_of (photosStore (snd (updatePhotoSplatStatus ''photo-1000-abc'' (Some Failed) None oneReadyPhoto)))
        ''photo-1000-abc''
     = Some (catData\<lparr>splatStatus := Some Failed, splatUrl := Some ''https://x/y.ply''\<rparr>)"
proof -
  have v: "validRefs oneReadyPhoto"
    by (simp add: validRefs_def store_examples)
  have f: "findPhoto ''photo-1000-abc'' oneReadyPhoto = Some 0"
    by (simp add: findPhoto_def store_examples)
  from updatePhotoSplatStatus_keeps_url [OF v f, of "Some Failed"] show ?thesis
    by (simp add: store_examples photoDataOf_def)
qed

text \<open>
  C6. The claim: every accepted file gets an id distinct from every id already in the
  store. The id is made at line 212 from the clock and the random source and is not
  compared with anything. In a store that holds the photo \<open>photo-1000-abc\<close>, with the
  clock at 1000 and the random suffix \<open>abc\<close>, the new photo gets the id of the old one.
\<close>

theorem same_id_counterexample:
  "fst (addPhotosFromFiles [catFile] None onePhoto) = Inr [1]
   \<and> map photo_id (getPhotos (snd (addPhotosFromFiles [catFile] None onePhoto)))
     = [''photo-1000-abc'', ''photo-1000-abc'']"
  by (simp add: add_eval store_examples)

text \<open>
  C6, as amended. When no IndexedDB request fails, \<open>addPhotosFromFiles\<close> returns
  normally, and what it returns is the new photo objects: one for each file whose content
  type starts with \<open>image/\<close>, in order, with the file's name and content, the target
  album and splatStatus pending; the other files are skipped. The id of a new photo is
  \<open>photo-\<close>, the reading of the clock at line 212, a hyphen and the next random suffix;
  its time stamp is the reading of the clock at line 216. The id is compared with nothing.
  The new ids differ from each other and from every id in memory and in IndexedDB when the
  random suffixes drawn are fresh: different from each other, free of hyphens, and not the
  end, after a hyphen, of an id the store knows. The photos that were in memory are
  unchanged and the new ones are appended to the array. Under the id of each new photo
  IndexedDB holds the pending record of a new photo with that id: its own when the new
  ids are distinct from each other. Records under other ids are as before.
\<close>

theorem addPhotosFromFiles_accepts_images:
  assumes "\<forall>n. \<not> snd (dbReplies w n)"
    and "addPhotosFromFiles files aid w = (res, w')"
  shows "res = Inr [length (heap w) ..< length (heap w')]
       \<and> take (length (heap w)) (heap w') = heap w
       \<and> list_all2 (createdFrom (orElse aid (orElse (currentAlbumId w) ''default'')))
            (filter isImage files) (drop (length (heap w)) (heap w'))
       \<and> map photo_id (drop (length (heap w)) (heap w')) = newIds w (length (filter isImage files))
       \<and> map timestamp (drop (length (heap w)) (heap w')) =
            newTimestamps w (length (filter isImage files))
       \<and> (freshSuffixes w (length (filter isImage files)) \<longrightarrow>
            distinct (map photo_id (drop (length (heap w)) (heap w')))
            \<and> (\<forall>p \<in> set (drop (length (heap w)) (heap w')). photo_id p \<notin> storedIds w))
       \<and> photos w' = photos w @ [length (heap w) ..< length (heap w')]
       \<and> (\<forall>p \<in> set (drop (length (heap w)) (heap w')).
             \<exists>q \<in> set (drop (length (heap w)) (heap w')).
               photo_id q = photo_id p
               \<and> map_of (photosStore w') (photo_id p) = Some (photoDataOf q)
               \<and> splatStatus (photoDataOf q) = Some Pending)
       \<and> (distinct (map photo_id (drop (length (heap w)) (heap w'))) \<longrightarrow>
            (\<forall>p \<in> set (drop (length (heap w)) (heap w')).
               map_of (photosStore w') (photo_id p) = Some (photoDataOf p)))
       \<and> (\<forall>k. k \<notin> photo_id ` set (drop (length (heap w)) (heap w')) \<longrightarrow>
               map_of (photosStore w') k = map_of (photosStore w) k)"
proof -
  let ?t = "orElse aid (orElse (currentAlbumId w) ''default'')"
  let ?new = "drop (length (heap w)) (heap w')"
  let ?n = "length (filter isImage files)"
  obtain r1 w1 where a: "addLoop files ?t [] w = (r1, w1)"
    by (cases "addLoop files ?t [] w")
  note s = addLoop_spec [OF assms(1) a]
  obtain r2 w2 where u: "updateAlbumCount ?t [length (heap w) ..< length (heap w1)] w1 = (r2, w2)"
    by (cases "updateAlbumCount ?t [length (heap w) ..< length (heap w1)] w1")
  from s have "\<not> snd (dbReplies w1 0)" by blast
  note f = updateAlbumCount_frame [OF u this]
  have "addPhotosFromFiles files aid w =
          (Inr [length (heap w) ..< length (heap w1)], notifyPhotosChanged w2)"
    using s f by (simp add: addPhotosFromFiles_def a u)
  with assms(2) have res: "res = Inr [length (heap w) ..< length (heap w1)]"
    and w': "w' = notifyPhotosChanged w2"
    by simp_all
  have same: "heap w' = heap w1" "photos w' = photos w1" "photosStore w' = photosStore w1"
    using f w' by (simp_all add: notifyPhotosChanged_def)
  have all2: "list_all2 (createdFrom ?t) (filter isImage files) ?new"
    using s same by simp
  have len: "length (heap w') - length (heap w) = ?n"
    using list_all2_lengthD [OF all2] by simp
  have ids: "map photo_id ?new = newIds w ?n"
    using s same len by simp
  have stamps: "map timestamp ?new = newTimestamps w ?n"
    using s same len by simp
  have fresh: "freshSuffixes w ?n \<longrightarrow>
      distinct (map photo_id ?new) \<and> (\<forall>p \<in> set ?new. photo_id p \<notin> storedIds w)"
  proof
    assume "freshSuffixes w ?n"
    then have "distinct (newIds w ?n)" and "set (newIds w ?n) \<inter> storedIds w = {}"
      using newIds_fresh by blast+
    then have "distinct (map photo_id ?new)" and "photo_id ` set ?new \<inter> storedIds w = {}"
      unfolding ids [symmetric] by simp_all
    then show "distinct (map photo_id ?new) \<and> (\<forall>p \<in> set ?new. photo_id p \<notin> storedIds w)"
      by blast
  qed
  have store: "map_of (photosStore w') = persist ?new (map_of (photosStore w))"
    using s same by simp
  have pending: "\<forall>q \<in> set ?new. splatStatus (photoDataOf q) = Some Pending"
  proof
    fix q assume "q \<in> set ?new"
    then obtain f where "createdFrom ?t f q"
      using all2 by (metis in_set_conv_nth list_all2_conv_all_nth)
    then show "splatStatus (photoDataOf q) = Some Pending"
      by (simp add: createdFrom_def photoDataOf_def)
  qed
  have 5: "\<forall>p \<in> set ?new. \<exists>q \<in> set ?new. photo_id q = photo_id p
               \<and> map_of (photosStore w') (photo_id p) = Some (photoDataOf q)
               \<and> splatStatus (photoDataOf q) = Some Pending"
    using persist_some [of _ ?new "map_of (photosStore w)"] pending store by metis
  have 6: "distinct (map photo_id ?new) \<longrightarrow>
            (\<forall>p \<in> set ?new. map_of (photosStore w') (photo_id p) = Some (photoDataOf p))"
    using persist_own [of ?new _ "map_of (photosStore w)"] store by simp
  have 7: "\<forall>k. k \<notin> photo_id ` set ?new \<longrightarrow> map_of (photosStore w') k = map_of (photosStore w) k"
    using persist_other [of _ ?new "map_of (photosStore w)"] store by simp
  have 1: "res = Inr [length (heap w) ..< length (heap w')]"
    and 2: "take (length (heap w)) (heap w') = heap w"
    and 3: "photos w' = photos w @ [length (heap w) ..< length (heap w')]"
    using res same s by simp_all
  from 1 2 all2 ids stamps fresh 3 5 6 7 show ?thesis
    by blast
qed

theorem addPhotosFromFiles_accepts_images_witness:
  "fst (addPhotosFromFiles [catFile, notesFile, dogFile] None tickingWorld) = Inr [1, 2]
   \<and> list_all2 (createdFrom ''default'') [catFile, dogFile]
        (drop 1 (heap (snd (addPhotosFromFiles [catFile, notesFile, dogFile] None tickingWorld))))
   \<and> map photo_id (getPhotos (snd (addPhotosFromFiles [catFile, notesFile, dogFile] None tickingWorld)))
     = [''photo-1000-abc'', ''photo-5000-k3f'', ''photo-5003-9zq'']
   \<and> map timestamp (getPhotos (snd (addPhotosFromFiles [catFile, notesFile, dogFile] None tickingWorld)))
     = [1000, 5002, 5005]
   \<and> distinct (map photo_id
        (drop 1 (heap (snd (addPhotosFromFiles [catFile, notesFile, dogFile] None tickingWorld)))))
   \<and> photo_id ` set (drop 1 (heap (snd (addPhotosFromFiles [catFile, notesFile, dogFile] None tickingWorld))))
       \<inter> storedIds tickingWorld = {}
   \<and> map fst (photosStore (snd (addPhotosFromFiles [catFile, notesFile, dogFile] None tickingWorld)))
     = [''photo-1000-abc'', ''photo-5000-k3f'', ''photo-5003-9zq'']"
proof -
  have ok: "\<forall>n. \<not> snd (dbReplies tickingWorld n)"
    by (simp add: store_examples more_examples)
  have run: "addPhotosFromFiles [catFile, notesFile, dogFile] None tickingWorld =
      (fst (addPhotosFromFiles [catFile, notesFile, dogFile] None tickingWorld),
       snd (addPhotosFromFiles [catFile, notesFile, dogFile] None tickingWorld))"
    by simp
  have input: "length (heap tickingWorld) = 1"
    "orElse None (orElse (currentAlbumId tickingWorld) ''default'') = ''default''"
    "filter isImage [catFile, notesFile, dogFile] = [catFile, dogFile]"
    by (simp_all add: store_examples more_examples orElse_def isImage_def)
  have fresh: "freshSuffixes tickingWorld (length [catFile, dogFile])"
    by (simp add: freshSuffixes_def storedIds_def getPhotos_def endsWith_def
        store_examples more_examples upt_rec less_Suc_eq)
  from addPhotosFromFiles_accepts_images [OF ok run]
  have "list_all2 (createdFrom ''default'') [catFile, dogFile]
        (drop 1 (heap (snd (addPhotosFromFiles [catFile, notesFile, dogFile] None tickingWorld))))
      \<and> distinct (map photo_id
        (drop 1 (heap (snd (addPhotosFromFiles [catFile, notesFile, dogFile] None tickingWorld)))))
      \<and> photo_id ` set (drop 1 (heap (snd (addPhotosFromFiles [catFile, notesFile, dogFile] None tickingWorld))))
          \<inter> storedIds tickingWorld = {}"
    unfolding input using fresh by blast
  moreover
  have "fst (addPhotosFromFiles [catFile, notesFile, dogFile] None tickingWorld) = Inr [1, 2]
   \<and> map photo_id (getPhotos (snd (addPhotosFromFiles [catFile, notesFile, dogFile] None tickingWorld)))
     = [''photo-1000-abc'', ''photo-5000-k3f'', ''photo-5003-9zq'']
   \<and> map timestamp (getPhotos (snd (addPhotosFromFiles [catFile, notesFile, dogFile] None tickingWorld)))
     = [1000, 5002, 5005]
   \<and> map fst (photosStore (snd (addPhotosFromFiles [catFile, notesFile, dogFile] None tickingWorld)))
     = [''photo-1000-abc'', ''photo-5000-k3f'', ''photo-5003-9zq'']"
    by (simp add: add_eval store_examples more_examples)
  ultimately show ?thesis by blast
qed

text \<open>
  C5. The claim: no operation ever moves a photo's splatStatus backward.
  \<open>updatePhotoSplatStatus\<close> assigns the status it is given at line 282 without reading
  the present one: called with \<open>processing\<close> on a photo that is ready, it makes the photo
  processing again.
\<close>

theorem unguarded_update_counterexample:
  "splatHistory (snd (updatePhotoSplatStatus ''photo-1000-abc'' (Some Processing) None oneReadyPhoto))
     = [(''photo-1000-abc'', Some Ready, Some Processing)]
   \<and> map splatStatus (getPhotos (snd (updatePhotoSplatStatus ''photo-1000-abc'' (Some Processing) None oneReadyPhoto)))
     = [Some Processing]"
  by (simp add: store_eval store_examples)

text \<open>
  The caller, \<open>generateSplatsForPhotos\<close>, reads the status of the object it was given
  (line 236) and updates the first photo of the array with that object's id. With two
  pending photos of the same id the first one goes from ready back to processing. And
  when the canvas throws after a photo was marked ready, the photo goes from ready to
  failed.
\<close>

lemma clashing_ids_go_backward:
  "splatHistory (snd (generateSplatsForPhotos [0, 1] clashingWorld)) =
     [(''photo-1000-abc'', Some Pending, Some Processing),
      (''photo-1000-abc'', Some Processing, Some Ready),
      (''photo-1000-abc'', Some Ready, Some Processing),
      (''photo-1000-abc'', Some Processing, Some Ready)]"
  by (simp add: convert_eval store_examples more_examples)

lemma broken_canvas_ready_then_failed:
  "splatHistory (snd (generateSplatsForPhotos [0] brokenCanvasWorld)) =
     [(''photo-1000-abc'', Some Pending, Some Processing),
      (''photo-1000-abc'', Some Processing, Some Ready),
      (''photo-1000-abc'', Some Ready, Some Failed)]"
  by (simp add: convert_eval store_examples more_examples)

text \<open>
  C5, as amended. The store does not check a change of splatStatus; the order is kept
  by \<open>generateSplatsForPhotos\<close>. Run on photos of the array, in a well-formed store
  whose photos have distinct ids, with any network, database, timers and canvas, it
  changes splatStatus only from pending to processing, from processing to ready, from
  processing to failed, and from ready to failed; never back to pending or processing.
\<close>

theorem generateSplatsForPhotos_forward:
  assumes "validRefs w" and "distinctIds w" and "set rs \<subseteq> set (photos w)"
  shows "\<exists>new. splatHistory (snd (generateSplatsForPhotos rs w)) = splatHistory w @ new
              \<and> list_all (\<lambda>(pid, old, new). advance old new) new"
proof (cases "isGeneratingSplats w")
  case True
  then have "splatHistory (snd (generateSplatsForPhotos rs w)) = splatHistory w @ []
              \<and> list_all (\<lambda>(pid, old, new). advance old new) []"
    by (simp add: generateSplatsForPhotos_def)
  then show ?thesis by blast
next
  case False
  let ?w0 = "w\<lparr>isGeneratingSplats := True\<rparr>"
  obtain r1 w1 where c: "convertAll rs ?w0 = (r1, w1)"
    by (cases "convertAll rs ?w0")
  have "validRefs ?w0" "distinctIds ?w0" "set rs \<subseteq> set (photos ?w0)"
    using assms by (simp_all add: validRefs_def distinctIds_def)
  from convertAll_spec [OF this c] have "forward ?w0 w1" .
  then obtain new where n: "splatHistory w1 = splatHistory w @ new"
      "list_all (\<lambda>(pid, old, new). advance old new) new"
    by (auto simp: forward_def)
  have "splatHistory (snd (generateSplatsForPhotos rs w)) = splatHistory w1"
    using False c
    by (cases r1) (auto simp: generateSplatsForPhotos_def hideStatusLater_def showStatus_def)
  with n show ?thesis by auto
qed



theorem generateSplatsForPhotos_forward_witness:
  "splatHistory (snd (generateSplatsForPhotos [0] convertibleWorld)) =
     [(''photo-1000-abc'', Some Pending, Some Processing),
      (''photo-1000-abc'', Some Processing, Some Ready)]
   \<and> (\<exists>new. splatHistory (snd (generateSplatsForPhotos [0] convertibleWorld)) = [] @ new
            \<and> list_all (\<lambda>(pid, old, new). advance old new) new)"
proof -
  have v: "validRefs convertibleWorld" "distinctIds convertibleWorld"
    "set [0] \<subseteq> set (photos convertibleWorld)"
    by (simp_all add: validRefs_def distinctIds_def store_examples more_examples)
  have h: "splatHistory convertibleWorld = []"
    by (simp add: store_examples more_examples)
  from generateSplatsForPhotos_forward [OF v]
  have "\<exists>new. splatHistory (snd (generateSplatsForPhotos [0] convertibleWorld)) = [] @ new
            \<and> list_all (\<lambda>(pid, old, new). advance old new) new"
    unfolding h .
  moreover
  have "splatHistory (snd (generateSplatsForPhotos [0] convertibleWorld)) =
     [(''photo-1000-abc'', Some Pending, Some Processing),
      (''photo-1000-abc'', Some Processing, Some Ready)]"
    by (simp add: convert_eval store_examples more_examples)
  ultimately show ?thesis by blast
qed

end
